theory Spec2Isabelle
  imports Main
begin

section \<open>The OAuth authorization flow of nbngcli (\<^verbatim>\<open>oauth-flow.ts\<close>)\<close>

text \<open>
  The class \<^verbatim>\<open>OAuthFlow\<close> obtains a refresh token through the redirect-based
  authorization-code flow. \<^verbatim>\<open>authorize(manual)\<close> runs either \<^verbatim>\<open>startAuthFlow\<close>
  (a local HTTP listener, a spawned browser, a two-minute timer) or
  \<^verbatim>\<open>startManualFlow\<close> (the user pastes the redirect URL), and turns the
  \<^verbatim>\<open>AuthResult\<close> of the flow into a returned token or a thrown error.

  Strings are byte strings (UTF-8): \<^verbatim>\<open>encodeURIComponent\<close> works on the UTF-8
  bytes of its argument, so the model of it is a map over bytes. A parsed
  query (\<^verbatim>\<open>url.parse(s, true).query\<close>) is a map from parameter names to values;
  every parameter occurs at most once (the array values Node builds for
  repeated parameters are outside the model).
\<close>

subsection \<open>Constants\<close>

definition SCOPES :: "string list" where
  "SCOPES = [''https://mail.google.com/'',
             ''https://www.googleapis.com/auth/calendar'',
             ''https://www.googleapis.com/auth/drive'']"

definition TIMEOUT_MS :: nat where
  "TIMEOUT_MS = 2 * 60 * 1000"

subsection \<open>JavaScript values\<close>

text \<open>
  An optional string field is \<open>None\<close> when it is \<^verbatim>\<open>undefined\<close> or \<^verbatim>\<open>null\<close>.
  JavaScript treats \<^verbatim>\<open>undefined\<close>, \<^verbatim>\<open>null\<close> and the empty string as false.
\<close>

fun truthy :: "string option \<Rightarrow> bool" where
  "truthy None = False"
| "truthy (Some s) = (s \<noteq> [])"

text \<open>\<^verbatim>\<open>v || d\<close> for a string-valued default.\<close>

fun or_else :: "string option \<Rightarrow> string \<Rightarrow> string" where
  "or_else None d = d"
| "or_else (Some s) d = (if s = [] then d else s)"

text \<open>\<^verbatim>\<open>v || undefined\<close>.\<close>

fun or_undefined :: "string option \<Rightarrow> string option" where
  "or_undefined None = None"
| "or_undefined (Some s) = (if s = [] then None else Some s)"

type_synonym query = "string \<rightharpoonup> string"

record AuthResult =
  success :: bool
  refreshToken :: "string option"
  error :: "string option"

text \<open>The \<^verbatim>\<open>tokens\<close> of the response of \<^verbatim>\<open>OAuth2Client.getToken\<close>.\<close>

record Credentials =
  refresh_token :: "string option"
  access_token :: "string option"

record OAuth2Client =
  client_id :: string
  client_secret :: string
  redirect_uri :: "string option"

subsection \<open>\<^verbatim>\<open>authorize\<close>: from the flow's result to a token or a thrown error\<close>

text \<open>
  \<open>Inl msg\<close> is \<^verbatim>\<open>throw new Error(msg)\<close>, \<open>Inr t\<close> is \<^verbatim>\<open>return t\<close>.
\<close>

definition authorize_result :: "AuthResult \<Rightarrow> string + string" where
  "authorize_result result =
     (if \<not> success result then Inl (or_else (error result) ''Authorization failed'')
      else if \<not> truthy (refreshToken result) then Inl ''No refresh token received''
      else (case refreshToken result of
              Some t \<Rightarrow> Inr t
            | None \<Rightarrow> Inl ''No refresh token received''))"

subsection \<open>The authorization URL\<close>

definition unreserved :: "char \<Rightarrow> bool" where
  "unreserved c \<longleftrightarrow>
     c \<in> set (''ABCDEFGHIJKLMNOPQRSTUVWXYZabcdefghijklmnopqrstuvwxyz0123456789-_.!~*()''
              @ [CHR 0x27])"

definition hex_digit :: "nat \<Rightarrow> char" where
  "hex_digit n = ''0123456789ABCDEF'' ! (n mod 16)"

definition percent :: "char \<Rightarrow> string" where
  "percent c = [CHR ''%'', hex_digit (of_char c div 16), hex_digit (of_char c mod 16)]"

definition encodeURIComponent :: "string \<Rightarrow> string" where
  "encodeURIComponent s = concat (map (\<lambda>c. if unreserved c then [c] else percent c) s)"

text \<open>\<^verbatim>\<open>xs.join(sep)\<close>.\<close>

fun join :: "string \<Rightarrow> string list \<Rightarrow> string" where
  "join sep [] = []"
| "join sep [x] = x"
| "join sep (x # y # ys) = x @ sep @ join sep (y # ys)"

definition scopeStr :: string where
  "scopeStr = join ''%20'' (map encodeURIComponent SCOPES)"

definition endpoint :: string where
  "endpoint = ''https://accounts.google.com/o/oauth2/v2/auth''"

text \<open>
  The template literal both flows build; \<open>clientId\<close> is interpolated as it is,
  \<open>redirectUri\<close> through \<^verbatim>\<open>encodeURIComponent\<close>.
\<close>

definition authUrl :: "string \<Rightarrow> string \<Rightarrow> string" where
  "authUrl clientId redirectUri =
     endpoint @ ''?client_id='' @ clientId
       @ ''&redirect_uri='' @ encodeURIComponent redirectUri
       @ ''&response_type=code&scope='' @ scopeStr
       @ ''&access_type=offline&prompt=consent''"

text \<open>Decimal digits of a number, as a template literal prints a port.\<close>

definition digit_char :: "nat \<Rightarrow> char" where
  "digit_char d = ''0123456789'' ! d"

function show_nat :: "nat \<Rightarrow> string" where
  "show_nat n = (if n < 10 then [digit_char n]
                 else show_nat (n div 10) @ [digit_char (n mod 10)])"
  by pat_completeness auto
termination
  by (relation "measure id") auto

declare show_nat.simps [simp del]

subsection \<open>The instance and the runtime around it\<close>

text \<open>
  The fields of the class. \<open>server\<close> and \<open>timeoutId\<close> hold handles: the
  \<^verbatim>\<open>http.Server\<close> and the timer created by the attempt with that number.
\<close>

record OAuthFlow =
  oauth2Client :: OAuth2Client
  server :: "nat option"
  timeoutId :: "nat option"

text \<open>
  What Node keeps outside the instance. An \<^verbatim>\<open>http.Server\<close> is \<open>Binding\<close> between
  \<^verbatim>\<open>listen\<close> and its callback, \<open>Listening port\<close> afterwards, \<open>Closing port\<close> once
  \<^verbatim>\<open>close()\<close> was called on a listening server (no new connection is accepted,
  a request on an open connection still reaches the handler), and \<open>Dead\<close> when it
  never listened.
\<close>

datatype listener_state = Binding | Listening nat | Closing nat | Dead

datatype timer_state = Armed | Cancelled | Fired

text \<open>
  Who awaits a pending \<^verbatim>\<open>getToken\<close> call: \<^verbatim>\<open>handleCallback\<close> of an attempt, or the
  \<^verbatim>\<open>rl.question\<close> callback of an attempt.
\<close>

datatype continuation = Callback nat | Manual nat

text \<open>What the program does to the outside, in the order it does it.\<close>

datatype effect =
    Print string
  | Spawn string "string list"
  | SetTimeout nat nat
  | ClearTimeout nat
  | CloseServer nat
  | Respond nat nat string
  | GetToken OAuth2Client string
  | Resolve nat AuthResult
  | Question nat string
  | CloseReadline nat

text \<open>
  \<open>attempts\<close> counts the calls of \<^verbatim>\<open>authorize\<close>; the attempt with number \<open>n\<close> owns
  the promise \<open>promise w n\<close> (\<open>None\<close> while pending: a promise keeps the value of
  the first \<^verbatim>\<open>resolve\<close>), the server \<open>listener w n\<close>, the timer \<open>timer w n\<close>
  and the console question \<open>prompt w n\<close>. \<open>awaiting w k\<close> is the continuation of the
  \<open>k\<close>-th \<^verbatim>\<open>getToken\<close> call while it is in flight. \<open>trace\<close> lists the effects, the
  most recent first. \<open>crashed\<close> is set when an exception reaches the event loop
  uncaught: the process exits.
\<close>

record world =
  this :: OAuthFlow
  platform :: string
  attempts :: nat
  listener :: "nat \<Rightarrow> listener_state option"
  timer :: "nat \<Rightarrow> timer_state option"
  prompt :: "nat \<Rightarrow> bool"
  promise :: "nat \<Rightarrow> AuthResult option"
  calls :: nat
  awaiting :: "nat \<Rightarrow> continuation option"
  children :: nat
  crashed :: bool
  trace :: "effect list"

text \<open>\<^verbatim>\<open>new OAuthFlow(clientId, clientSecret)\<close> in a fresh process.\<close>

definition new_OAuthFlow :: "string \<Rightarrow> string \<Rightarrow> OAuthFlow" where
  "new_OAuthFlow clientId clientSecret =
     \<lparr>oauth2Client = \<lparr>client_id = clientId, client_secret = clientSecret,
                       redirect_uri = None\<rparr>,
      server = None, timeoutId = None\<rparr>"

definition boot :: "string \<Rightarrow> string \<Rightarrow> string \<Rightarrow> world" where
  "boot plat clientId clientSecret =
     \<lparr>this = new_OAuthFlow clientId clientSecret, platform = plat, attempts = 0,
      listener = (\<lambda>_. None), timer = (\<lambda>_. None), prompt = (\<lambda>_. False),
      promise = (\<lambda>_. None), calls = 0, awaiting = (\<lambda>_. None), children = 0,
      crashed = False, trace = []\<rparr>"

subsection \<open>Primitive operations of the runtime\<close>

definition emit :: "effect \<Rightarrow> world \<Rightarrow> world" where
  "emit e w = w\<lparr>trace := e # trace w\<rparr>"

text \<open>The \<^verbatim>\<open>resolve\<close> function of the promise of attempt \<open>n\<close>: the first call wins.\<close>

definition resolve :: "nat \<Rightarrow> AuthResult \<Rightarrow> world \<Rightarrow> world" where
  "resolve n r w =
     emit (Resolve n r)
       (case promise w n of
          None \<Rightarrow> w\<lparr>promise := (promise w)(n \<mapsto> r)\<rparr>
        | Some _ \<Rightarrow> w)"

definition clearTimeout :: "nat \<Rightarrow> world \<Rightarrow> world" where
  "clearTimeout t w =
     emit (ClearTimeout t)
       (if timer w t = Some Armed then w\<lparr>timer := (timer w)(t \<mapsto> Cancelled)\<rparr> else w)"

definition close :: "nat \<Rightarrow> world \<Rightarrow> world" where
  "close s w =
     emit (CloseServer s)
       (case listener w s of
          Some Binding \<Rightarrow> w\<lparr>listener := (listener w)(s \<mapsto> Dead)\<rparr>
        | Some (Listening p) \<Rightarrow> w\<lparr>listener := (listener w)(s \<mapsto> Closing p)\<rparr>
        | _ \<Rightarrow> w)"

text \<open>\<^verbatim>\<open>server.address()\<close>: the bound port, \<^verbatim>\<open>null\<close> unless listening.\<close>

definition address :: "nat \<Rightarrow> world \<Rightarrow> nat option" where
  "address s w = (case listener w s of Some (Listening p) \<Rightarrow> Some p | _ \<Rightarrow> None)"

definition respond :: "nat \<Rightarrow> nat \<Rightarrow> string \<Rightarrow> world \<Rightarrow> world" where
  "respond n status body w = emit (Respond n status body) w"

text \<open>
  \<^verbatim>\<open>this.oauth2Client.getToken(code)\<close> followed by \<^verbatim>\<open>await\<close>: the call goes out with
  the client the instance holds now, and \<open>k\<close> runs when the answer arrives.
\<close>

definition getToken :: "continuation \<Rightarrow> string \<Rightarrow> world \<Rightarrow> world" where
  "getToken k code w =
     emit (GetToken (oauth2Client (this w)) code)
       (w\<lparr>awaiting := (awaiting w)(calls w \<mapsto> k), calls := Suc (calls w)\<rparr>)"

subsection \<open>The methods of \<^verbatim>\<open>OAuthFlow\<close>\<close>

definition cleanup :: "world \<Rightarrow> world" where
  "cleanup w =
     (let w1 = (case timeoutId (this w) of
                  Some t \<Rightarrow> (clearTimeout t w)\<lparr>this := (this w)\<lparr>timeoutId := None\<rparr>\<rparr>
                | None \<Rightarrow> w)
      in (case server (this w1) of
            Some s \<Rightarrow> (close s w1)\<lparr>this := (this w1)\<lparr>server := None\<rparr>\<rparr>
          | None \<Rightarrow> w1))"

text \<open>
  \<^verbatim>\<open>spawn(cmd, args, ...).unref()\<close>. No listener for the child's \<^verbatim>\<open>error\<close> event is
  registered and the call is not inside a \<^verbatim>\<open>try\<close>.
\<close>

definition openBrowser :: "string \<Rightarrow> world \<Rightarrow> world" where
  "openBrowser u w =
     (let (cmd, args) =
            (if platform w = ''darwin'' then (''open'', [u])
             else if platform w = ''win32'' then (''cmd'', [''/c'', ''start'', [], u])
             else (''xdg-open'', [u]))
      in emit (Spawn cmd args) (w\<lparr>children := Suc (children w)\<rparr>))"

text \<open>The synchronous part of \<^verbatim>\<open>startAuthFlow\<close>: the server is created and told to listen.\<close>

definition startAuthFlow :: "world \<Rightarrow> world" where
  "startAuthFlow w =
     (let n = attempts w
      in w\<lparr>this := (this w)\<lparr>server := Some n\<rparr>,
           listener := (listener w)(n \<mapsto> Binding),
           attempts := Suc n\<rparr>)"

text \<open>
  The callback of \<^verbatim>\<open>listen\<close> of attempt \<open>n\<close>. \<^verbatim>\<open>this.server!.address()\<close> reads the
  server the instance holds now; on \<^verbatim>\<open>null\<close> it throws a TypeError inside the
  callback, which nothing catches.
\<close>

definition on_listening :: "nat \<Rightarrow> world \<Rightarrow> world" where
  "on_listening n w =
     (case server (this w) of
        None \<Rightarrow> w\<lparr>crashed := True\<rparr>
      | Some s \<Rightarrow>
          (let port = (case address s w of Some p \<Rightarrow> p | None \<Rightarrow> 0);
               redirectUri = ''http://localhost:'' @ show_nat port;
               w1 = w\<lparr>this := (this w)\<lparr>oauth2Client :=
                        \<lparr>client_id = client_id (oauth2Client (this w)),
                         client_secret = client_secret (oauth2Client (this w)),
                         redirect_uri = Some redirectUri\<rparr>\<rparr>\<rparr>;
               clientId = client_id (oauth2Client (this w1));
               u = authUrl clientId redirectUri;
               w2 = emit (Print u)
                      (emit (Print (''If browser doesn'' @ [CHR 0x27] @ ''t open, visit this URL:''))
                         (emit (Print ''Opening browser for authorization...'') w1));
               w3 = openBrowser u w2
           in emit (SetTimeout n TIMEOUT_MS)
                (w3\<lparr>timer := (timer w3)(n \<mapsto> Armed),
                    this := (this w3)\<lparr>timeoutId := Some n\<rparr>\<rparr>)))"

text \<open>The timer's callback.\<close>

definition on_timeout :: "nat \<Rightarrow> world \<Rightarrow> world" where
  "on_timeout n w =
     resolve n \<lparr>success = False, refreshToken = None,
                 error = Some ''Authorization timed out''\<rparr>
       (cleanup (emit (Print ''Authorization timed out after 2 minutes'') w))"

text \<open>The server's \<^verbatim>\<open>error\<close> listener.\<close>

definition on_error :: "nat \<Rightarrow> string \<Rightarrow> world \<Rightarrow> world" where
  "on_error n msg w =
     resolve n \<lparr>success = False, refreshToken = None, error = Some msg\<rparr> (cleanup w)"

text \<open>\<^verbatim>\<open>handleCallback\<close> up to its \<^verbatim>\<open>await\<close>.\<close>

definition handleCallback :: "nat \<Rightarrow> query \<Rightarrow> world \<Rightarrow> world" where
  "handleCallback n q w =
     (if truthy (q ''error'') then
        resolve n \<lparr>success = False, refreshToken = None, error = q ''error''\<rparr>
          (cleanup (respond n 200
             ''<html><body><h1>Authorization cancelled</h1></body></html>'' w))
      else (case or_undefined (q ''code'') of
              None \<Rightarrow>
                resolve n \<lparr>success = False, refreshToken = None,
                            error = Some ''No authorization code''\<rparr>
                  (cleanup (respond n 400
                     ''<html><body><h1>No authorization code</h1></body></html>'' w))
            | Some code \<Rightarrow> getToken (Callback n) code w))"

text \<open>
  \<^verbatim>\<open>handleCallback\<close> after its \<^verbatim>\<open>await\<close>: \<open>Inr tokens\<close> when \<^verbatim>\<open>getToken\<close> answered,
  \<open>Inl msg\<close> when it threw.
\<close>

definition handleCallback_resume :: "nat \<Rightarrow> string + Credentials \<Rightarrow> world \<Rightarrow> world" where
  "handleCallback_resume n outcome w =
     (case outcome of
        Inr tokens \<Rightarrow>
          resolve n \<lparr>success = True, refreshToken = or_undefined (refresh_token tokens),
                      error = None\<rparr>
            (cleanup (respond n 200
               ''<html><body><h1>Success!</h1><p>You can close this window.</p></body></html>'' w))
      | Inl msg \<Rightarrow>
          resolve n \<lparr>success = False, refreshToken = None, error = Some msg\<rparr>
            (cleanup (respond n 500
               (''<html><body><h1>Error</h1><p>'' @ msg @ ''</p></body></html>'') w)))"

text \<open>The request handler given to \<^verbatim>\<open>http.createServer\<close> by attempt \<open>n\<close>.\<close>

definition on_request :: "nat \<Rightarrow> string \<Rightarrow> query \<Rightarrow> world \<Rightarrow> world" where
  "on_request n pathname q w =
     (if pathname = ''/'' then handleCallback n q w else respond n 404 [] w)"

text \<open>\<^verbatim>\<open>startManualFlow\<close> up to the promise it returns.\<close>

definition startManualFlow :: "world \<Rightarrow> world" where
  "startManualFlow w =
     (let n = attempts w;
          redirectUri = ''http://localhost:1'';
          w1 = w\<lparr>this := (this w)\<lparr>oauth2Client :=
                   \<lparr>client_id = client_id (oauth2Client (this w)),
                    client_secret = client_secret (oauth2Client (this w)),
                    redirect_uri = Some redirectUri\<rparr>\<rparr>\<rparr>;
          clientId = client_id (oauth2Client (this w1));
          u = authUrl clientId redirectUri;
          w2 = emit (Print [])
                 (emit (Print (''Copy the URL from your browser'' @ [CHR 0x27]
                                 @ ''s address bar and paste it here.''))
                    (emit (Print (''After authorizing, you'' @ [CHR 0x27]
                                    @ ''ll be redirected to a page that won'' @ [CHR 0x27]
                                    @ ''t load.''))
                       (emit (Print [])
                          (emit (Print u)
                             (emit (Print ''Visit this URL to authorize:'') w1)))))
      in emit (Question n ''Paste redirect URL: '')
           (w2\<lparr>prompt := (prompt w2)(n := True), attempts := Suc n\<rparr>))"

text \<open>
  The callback of \<^verbatim>\<open>rl.question\<close> up to its \<^verbatim>\<open>await\<close>. The pasted line arrives as
  what \<^verbatim>\<open>url.parse(input, true)\<close> makes of it: \<open>Inr q\<close> the parsed query, \<open>Inl msg\<close>
  when parsing threw.
\<close>

definition on_input :: "nat \<Rightarrow> string + query \<Rightarrow> world \<Rightarrow> world" where
  "on_input n parsed w =
     (let w1 = emit (CloseReadline n) (w\<lparr>prompt := (prompt w)(n := False)\<rparr>)
      in (case parsed of
            Inl msg \<Rightarrow>
              resolve n \<lparr>success = False, refreshToken = None, error = Some msg\<rparr> w1
          | Inr q \<Rightarrow>
              (case or_undefined (q ''code'') of
                 None \<Rightarrow>
                   resolve n \<lparr>success = False, refreshToken = None,
                               error = Some ''No authorization code found in URL''\<rparr> w1
               | Some code \<Rightarrow> getToken (Manual n) code w1)))"

text \<open>The same callback after its \<^verbatim>\<open>await\<close>.\<close>

definition on_input_resume :: "nat \<Rightarrow> string + Credentials \<Rightarrow> world \<Rightarrow> world" where
  "on_input_resume n outcome w =
     (case outcome of
        Inr tokens \<Rightarrow>
          resolve n \<lparr>success = True, refreshToken = or_undefined (refresh_token tokens),
                      error = None\<rparr> w
      | Inl msg \<Rightarrow>
          resolve n \<lparr>success = False, refreshToken = None, error = Some msg\<rparr> w)"

subsection \<open>Events\<close>

text \<open>
  What reaches the program: a call of \<^verbatim>\<open>authorize(manual)\<close>; the \<^verbatim>\<open>listening\<close> and
  \<^verbatim>\<open>error\<close> events of a server; a request to a server (its parsed path and
  query); a timer running out; the answer to a \<^verbatim>\<open>getToken\<close> call; a line on
  the console; the \<^verbatim>\<open>error\<close> event of a spawned child (the command could not
  be started).

  Node delivers an event only where it can occur: \<^verbatim>\<open>listening\<close> once, to a server
  that is binding; a request to a server that listens or is closing; a timer
  that is armed; an answer to a call in flight; a line to an open question.
  An \<^verbatim>\<open>error\<close> event of an emitter without a listener for it is thrown, and an
  uncaught exception ends the process: after that nothing runs.
\<close>

datatype event =
    Authorize bool
  | Listen nat nat
  | ServerError nat string
  | Request nat string query
  | TimerFires nat
  | ExchangeReturns nat "string + Credentials"
  | ManualInput nat "string + query"
  | ChildError nat string

definition step :: "event \<Rightarrow> world \<Rightarrow> world" where
  "step e w =
     (if crashed w then w
      else (case e of
          Authorize manual \<Rightarrow> (if manual then startManualFlow w else startAuthFlow w)
        | Listen n port \<Rightarrow>
            (if listener w n = Some Binding
             then on_listening n (w\<lparr>listener := (listener w)(n \<mapsto> Listening port)\<rparr>)
             else w)
        | ServerError n msg \<Rightarrow>
            (case listener w n of
               None \<Rightarrow> w
             | Some Binding \<Rightarrow> on_error n msg (w\<lparr>listener := (listener w)(n \<mapsto> Dead)\<rparr>)
             | Some _ \<Rightarrow> on_error n msg w)
        | Request n pathname q \<Rightarrow>
            (case listener w n of
               Some (Listening p) \<Rightarrow> on_request n pathname q w
             | Some (Closing p) \<Rightarrow> on_request n pathname q w
             | _ \<Rightarrow> w)
        | TimerFires n \<Rightarrow>
            (if timer w n = Some Armed
             then on_timeout n (w\<lparr>timer := (timer w)(n \<mapsto> Fired)\<rparr>)
             else w)
        | ExchangeReturns k outcome \<Rightarrow>
            (case awaiting w k of
               None \<Rightarrow> w
             | Some (Callback n) \<Rightarrow>
                 handleCallback_resume n outcome (w\<lparr>awaiting := (awaiting w)(k := None)\<rparr>)
             | Some (Manual n) \<Rightarrow>
                 on_input_resume n outcome (w\<lparr>awaiting := (awaiting w)(k := None)\<rparr>))
        | ManualInput n parsed \<Rightarrow> (if prompt w n then on_input n parsed w else w)
        | ChildError c msg \<Rightarrow> (if c < children w then w\<lparr>crashed := True\<rparr> else w)))"

fun run :: "event list \<Rightarrow> world \<Rightarrow> world" where
  "run [] w = w"
| "run (e # es) w = run es (step e w)"

text \<open>
  What the caller of \<^verbatim>\<open>authorize\<close> of attempt \<open>n\<close> has got: \<open>None\<close> while the
  promise is pending, then the returned token or the thrown error.
\<close>

definition authorize :: "world \<Rightarrow> nat \<Rightarrow> (string + string) option" where
  "authorize w n = map_option authorize_result (promise w n)"

text \<open>A parsed query given by its pairs.\<close>

definition query_of :: "(string \<times> string) list \<Rightarrow> query" where
  "query_of ps = map_of ps"

subsection \<open>Observations on a run\<close>

text \<open>The servers closed, the timers cleared and the codes handed to
  \<^verbatim>\<open>getToken\<close>, read off a trace (most recent first).\<close>

fun closed_servers :: "effect list \<Rightarrow> nat list" where
  "closed_servers [] = []"
| "closed_servers (CloseServer s # es) = s # closed_servers es"
| "closed_servers (_ # es) = closed_servers es"

fun cleared_timers :: "effect list \<Rightarrow> nat list" where
  "cleared_timers [] = []"
| "cleared_timers (ClearTimeout t # es) = t # cleared_timers es"
| "cleared_timers (_ # es) = cleared_timers es"

fun set_timers :: "effect list \<Rightarrow> (nat \<times> nat) list" where
  "set_timers [] = []"
| "set_timers (SetTimeout t ms # es) = (t, ms) # set_timers es"
| "set_timers (_ # es) = set_timers es"

fun exchanged :: "effect list \<Rightarrow> string list" where
  "exchanged [] = []"
| "exchanged (GetToken c code # es) = code # exchanged es"
| "exchanged (_ # es) = exchanged es"

text \<open>
  Every \<^verbatim>\<open>resolve\<close> of attempt \<open>n\<close> in the trace comes after a \<^verbatim>\<open>close()\<close> of the
  server of attempt \<open>n\<close> and, when the timer of attempt \<open>n\<close> was set, after the
  \<^verbatim>\<open>clearTimeout\<close> of it.
\<close>

fun released_first :: "effect list \<Rightarrow> bool" where
  "released_first [] = True"
| "released_first (Resolve n r # es) =
     (n \<in> set (closed_servers es)
      \<and> (n \<in> fst ` set (set_timers es) \<longrightarrow> n \<in> set (cleared_timers es))
      \<and> released_first es)"
| "released_first (_ # es) = released_first es"

fun is_authorize :: "event \<Rightarrow> bool" where
  "is_authorize (Authorize m) = True"
| "is_authorize _ = False"

fun is_input :: "event \<Rightarrow> bool" where
  "is_input (ManualInput n l) = True"
| "is_input _ = False"

text \<open>A run of one attempt: the events after the call of \<^verbatim>\<open>authorize\<close> hold no
  further call of it.\<close>

definition one_attempt :: "event list \<Rightarrow> bool" where
  "one_attempt evs = list_all (\<lambda>e. \<not> is_authorize e) evs"

definition no_input :: "event list \<Rightarrow> bool" where
  "no_input evs = list_all (\<lambda>e. \<not> is_input e) evs"

fun closed :: "listener_state option \<Rightarrow> bool" where
  "closed (Some (Closing p)) = True"
| "closed (Some Dead) = True"
| "closed _ = False"

text \<open>
  A step from \<open>w\<close> to \<open>w'\<close> that ends attempt 0 with the result \<open>r\<close>: after the
  effects \<open>pre\<close> of the handler itself, cleanup clears the timer (when one was set)
  and closes the server, and only then \<open>r\<close> is passed to \<^verbatim>\<open>resolve\<close>; the promise
  now holds \<open>r\<close>, the server is closed, the timer is not armed and the instance
  holds neither handle.
\<close>

definition ends_with :: "world \<Rightarrow> world \<Rightarrow> effect list \<Rightarrow> AuthResult \<Rightarrow> bool" where
  "ends_with w w' pre r \<longleftrightarrow>
     trace w' = Resolve 0 r # CloseServer 0
                  # (if timer w 0 = None then [] else [ClearTimeout 0]) @ pre @ trace w
     \<and> promise w' 0 = Some r \<and> closed (listener w' 0) \<and> timer w' 0 \<noteq> Some Armed
     \<and> server (this w') = None \<and> timeoutId (this w') = None"

subsection \<open>Reading a URL\<close>

text \<open>
  The part of a URL before its query, and the \<open>name=value\<close> pairs of its
  query as they stand in the text (not decoded): the query runs from the
  first \<open>?\<close> to the first \<open>#\<close>, pairs are separated by \<open>&\<close>, a pair is cut at
  its first \<open>=\<close>.
\<close>

fun split_on :: "char \<Rightarrow> string \<Rightarrow> string list" where
  "split_on c [] = [[]]"
| "split_on c (x # xs) =
     (if x = c then [] # split_on c xs
      else (case split_on c xs of
              y # ys \<Rightarrow> (x # y) # ys
            | [] \<Rightarrow> [[x]]))"

definition key_value :: "string \<Rightarrow> string \<times> string" where
  "key_value s = (takeWhile (\<lambda>c. c \<noteq> CHR ''='') s, drop 1 (dropWhile (\<lambda>c. c \<noteq> CHR ''='') s))"

definition url_base :: "string \<Rightarrow> string" where
  "url_base u = takeWhile (\<lambda>c. c \<noteq> CHR ''?'' \<and> c \<noteq> CHR ''#'') u"

definition url_query :: "string \<Rightarrow> string" where
  "url_query u =
     drop 1 (dropWhile (\<lambda>c. c \<noteq> CHR ''?'') (takeWhile (\<lambda>c. c \<noteq> CHR ''#'') u))"

definition query_params :: "string \<Rightarrow> (string \<times> string) list" where
  "query_params u =
     (if url_query u = [] then [] else map key_value (split_on (CHR ''&'') (url_query u)))"

subsection \<open>Invariants of the runs\<close>

text \<open>Every \<^verbatim>\<open>getToken\<close> call in flight was numbered below \<open>calls\<close>.\<close>

definition calls_ok :: "world \<Rightarrow> bool" where
  "calls_ok w \<longleftrightarrow> (\<forall>k. awaiting w k \<noteq> None \<longrightarrow> k < calls w)"

text \<open>Nothing exists yet for the attempts that have not been started.\<close>

definition attempts_ok :: "world \<Rightarrow> bool" where
  "attempts_ok w \<longleftrightarrow>
     (\<forall>n. attempts w \<le> n \<longrightarrow>
        listener w n = None \<and> timer w n = None \<and> \<not> prompt w n \<and> promise w n = None
        \<and> (\<forall>k. awaiting w k \<noteq> Some (Callback n) \<and> awaiting w k \<noteq> Some (Manual n)))"

text \<open>The value a promise holds was passed to its \<^verbatim>\<open>resolve\<close>.\<close>

definition delivered :: "world \<Rightarrow> bool" where
  "delivered w \<longleftrightarrow> (\<forall>n r. promise w n = Some r \<longrightarrow> Resolve n r \<in> set (trace w))"

text \<open>
  One automated attempt, number 0: the instance holds the handles of attempt 0
  or none; while the server binds nothing else exists; while it listens the
  timer is armed and the promise pending; once it is closed the promise is
  settled, the handles are gone and the timer is not armed.
\<close>

definition auto_inv :: "world \<Rightarrow> bool" where
  "auto_inv w \<longleftrightarrow>
     (\<forall>n. \<not> prompt w n)
     \<and> (\<forall>n. n \<noteq> 0 \<longrightarrow> listener w n = None \<and> timer w n = None \<and> promise w n = None)
     \<and> (\<forall>k c. awaiting w k = Some c \<longrightarrow> c = Callback 0)
     \<and> listener w 0 \<noteq> None
     \<and> (listener w 0 = Some Binding \<longrightarrow>
            server (this w) = Some 0 \<and> timeoutId (this w) = None \<and> timer w 0 = None
            \<and> promise w 0 = None \<and> (\<forall>k. awaiting w k = None))
     \<and> (\<forall>p. listener w 0 = Some (Listening p) \<longrightarrow>
            server (this w) = Some 0 \<and> timeoutId (this w) = Some 0 \<and> timer w 0 = Some Armed
            \<and> promise w 0 = None)
     \<and> (\<forall>p. listener w 0 = Some (Closing p) \<longrightarrow>
            server (this w) = None \<and> timeoutId (this w) = None
            \<and> (timer w 0 = Some Cancelled \<or> timer w 0 = Some Fired) \<and> promise w 0 \<noteq> None)
     \<and> (listener w 0 = Some Dead \<longrightarrow>
            server (this w) = None \<and> timeoutId (this w) = None \<and> timer w 0 = None
            \<and> promise w 0 \<noteq> None)
     \<and> closed_servers (trace w) = (if server (this w) = None then [0] else [])
     \<and> cleared_timers (trace w)
         = (if timer w 0 = Some Cancelled \<or> timer w 0 = Some Fired then [0] else [])
     \<and> set_timers (trace w) = (if timer w 0 = None then [] else [(0, TIMEOUT_MS)])
     \<and> released_first (trace w)"

text \<open>
  One manual attempt, number 0: no server and no timer exists and the instance
  holds no handle; while the question is open the promise is pending and no
  \<^verbatim>\<open>getToken\<close> call has been made.
\<close>

definition manual_inv :: "world \<Rightarrow> bool" where
  "manual_inv w \<longleftrightarrow>
     (\<forall>n. listener w n = None \<and> timer w n = None)
     \<and> (\<forall>n. n \<noteq> 0 \<longrightarrow> prompt w n = False)
     \<and> server (this w) = None \<and> timeoutId (this w) = None
     \<and> set_timers (trace w) = [] \<and> closed_servers (trace w) = []
     \<and> cleared_timers (trace w) = []
     \<and> (\<forall>k n. awaiting w k = Some (Callback n) \<longrightarrow> False)
     \<and> (prompt w 0 \<longrightarrow> promise w 0 = None \<and> exchanged (trace w) = []
                          \<and> (\<forall>k. awaiting w k = None))
     \<and> (exchanged (trace w) = [] \<longrightarrow> (\<forall>k. awaiting w k = None))"

section \<open>Proofs\<close>

subsection \<open>Fields after each operation\<close>

lemma emit_fields [simp]:
  "this (emit e w) = this w" "platform (emit e w) = platform w"
  "attempts (emit e w) = attempts w" "listener (emit e w) = listener w"
  "timer (emit e w) = timer w" "prompt (emit e w) = prompt w"
  "promise (emit e w) = promise w" "calls (emit e w) = calls w"
  "awaiting (emit e w) = awaiting w" "children (emit e w) = children w"
  "crashed (emit e w) = crashed w" "trace (emit e w) = e # trace w"
  by (simp_all add: emit_def)

lemma respond_fields [simp]:
  "this (respond n s b w) = this w" "platform (respond n s b w) = platform w"
  "attempts (respond n s b w) = attempts w" "listener (respond n s b w) = listener w"
  "timer (respond n s b w) = timer w" "prompt (respond n s b w) = prompt w"
  "promise (respond n s b w) = promise w" "calls (respond n s b w) = calls w"
  "awaiting (respond n s b w) = awaiting w" "children (respond n s b w) = children w"
  "crashed (respond n s b w) = crashed w"
  "trace (respond n s b w) = Respond n s b # trace w"
  by (simp_all add: respond_def)

lemma resolve_fields [simp]:
  "this (resolve n r w) = this w" "platform (resolve n r w) = platform w"
  "attempts (resolve n r w) = attempts w" "listener (resolve n r w) = listener w"
  "timer (resolve n r w) = timer w" "prompt (resolve n r w) = prompt w"
  "promise (resolve n r w) = (if promise w n = None then (promise w)(n \<mapsto> r) else promise w)"
  "calls (resolve n r w) = calls w"
  "awaiting (resolve n r w) = awaiting w" "children (resolve n r w) = children w"
  "crashed (resolve n r w) = crashed w"
  "trace (resolve n r w) = Resolve n r # trace w"
  by (simp_all add: resolve_def split: option.splits)

lemma getToken_fields [simp]:
  "this (getToken k c w) = this w" "platform (getToken k c w) = platform w"
  "attempts (getToken k c w) = attempts w" "listener (getToken k c w) = listener w"
  "timer (getToken k c w) = timer w" "prompt (getToken k c w) = prompt w"
  "promise (getToken k c w) = promise w" "calls (getToken k c w) = Suc (calls w)"
  "awaiting (getToken k c w) = (awaiting w)(calls w \<mapsto> k)"
  "children (getToken k c w) = children w"
  "crashed (getToken k c w) = crashed w"
  "trace (getToken k c w) = GetToken (oauth2Client (this w)) c # trace w"
  by (simp_all add: getToken_def)

lemma cleanup_fields [simp]:
  "this (cleanup w) = (this w)\<lparr>server := None, timeoutId := None\<rparr>"
  "platform (cleanup w) = platform w"
  "attempts (cleanup w) = attempts w"
  "listener (cleanup w) =
     (case server (this w) of
        None \<Rightarrow> listener w
      | Some s \<Rightarrow> (case listener w s of
                    Some Binding \<Rightarrow> (listener w)(s \<mapsto> Dead)
                  | Some (Listening p) \<Rightarrow> (listener w)(s \<mapsto> Closing p)
                  | _ \<Rightarrow> listener w))"
  "timer (cleanup w) =
     (case timeoutId (this w) of
        None \<Rightarrow> timer w
      | Some t \<Rightarrow> (if timer w t = Some Armed then (timer w)(t \<mapsto> Cancelled) else timer w))"
  "prompt (cleanup w) = prompt w"
  "promise (cleanup w) = promise w" "calls (cleanup w) = calls w"
  "awaiting (cleanup w) = awaiting w" "children (cleanup w) = children w"
  "crashed (cleanup w) = crashed w"
  "trace (cleanup w) =
     (case server (this w) of None \<Rightarrow> [] | Some s \<Rightarrow> [CloseServer s])
     @ (case timeoutId (this w) of None \<Rightarrow> [] | Some t \<Rightarrow> [ClearTimeout t])
     @ trace w"
  by (cases "timeoutId (this w)"; cases "server (this w)";
      simp add: cleanup_def clearTimeout_def close_def emit_def Let_def
           split: option.splits listener_state.splits)+

lemma openBrowser_fields [simp]:
  "this (openBrowser u w) = this w" "platform (openBrowser u w) = platform w"
  "attempts (openBrowser u w) = attempts w" "listener (openBrowser u w) = listener w"
  "timer (openBrowser u w) = timer w" "prompt (openBrowser u w) = prompt w"
  "promise (openBrowser u w) = promise w" "calls (openBrowser u w) = calls w"
  "awaiting (openBrowser u w) = awaiting w" "children (openBrowser u w) = Suc (children w)"
  "crashed (openBrowser u w) = crashed w"
  "trace (openBrowser u w) =
     Spawn (if platform w = ''darwin'' then ''open''
            else if platform w = ''win32'' then ''cmd'' else ''xdg-open'')
           (if platform w = ''darwin'' then [u]
            else if platform w = ''win32'' then [''/c'', ''start'', [], u] else [u])
       # trace w"
  by (simp_all add: openBrowser_def)

lemmas handlers = startAuthFlow_def on_listening_def on_timeout_def
  on_error_def handleCallback_def handleCallback_resume_def on_request_def
  startManualFlow_def on_input_def on_input_resume_def

subsection \<open>Single steps\<close>

lemma step_Authorize: "step (Authorize manual) w =
   (if crashed w then w else (if manual then startManualFlow w else startAuthFlow w))"
  by (simp add: step_def)

lemma step_Listen: "step (Listen n port) w =
   (if crashed w then w else if listener w n = Some Binding
             then on_listening n (w\<lparr>listener := (listener w)(n \<mapsto> Listening port)\<rparr>)
             else w)"
  by (simp add: step_def)

lemma step_ServerError: "step (ServerError n msg) w =
   (if crashed w then w else
            (case listener w n of
               None \<Rightarrow> w
             | Some Binding \<Rightarrow> on_error n msg (w\<lparr>listener := (listener w)(n \<mapsto> Dead)\<rparr>)
             | Some _ \<Rightarrow> on_error n msg w))"
  by (simp add: step_def)

lemma step_Request: "step (Request n pathname q) w =
   (if crashed w then w else
            (case listener w n of
               Some (Listening p) \<Rightarrow> on_request n pathname q w
             | Some (Closing p) \<Rightarrow> on_request n pathname q w
             | _ \<Rightarrow> w))"
  by (simp add: step_def)

lemma step_TimerFires: "step (TimerFires n) w =
   (if crashed w then w else
            (if timer w n = Some Armed
             then on_timeout n (w\<lparr>timer := (timer w)(n \<mapsto> Fired)\<rparr>)
             else w))"
  by (simp add: step_def)

lemma step_ExchangeReturns: "step (ExchangeReturns k outcome) w =
   (if crashed w then w else
            (case awaiting w k of
               None \<Rightarrow> w
             | Some (Callback n) \<Rightarrow>
                 handleCallback_resume n outcome (w\<lparr>awaiting := (awaiting w)(k := None)\<rparr>)
             | Some (Manual n) \<Rightarrow>
                 on_input_resume n outcome (w\<lparr>awaiting := (awaiting w)(k := None)\<rparr>)))"
  by (simp add: step_def)

lemma step_ManualInput: "step (ManualInput n parsed) w =
   (if crashed w then w else (if prompt w n then on_input n parsed w else w))"
  by (simp add: step_def)

lemma step_ChildError: "step (ChildError c msg) w =
   (if crashed w then w else (if c < children w then w\<lparr>crashed := True\<rparr> else w))"
  by (simp add: step_def)

lemma crashed_step: "crashed w \<Longrightarrow> step e w = w"
  by (simp add: step_def)

lemma request_hands_code_over:
  assumes "\<not> crashed w" "listener w n = Some (Listening p) \<or> listener w n = Some (Closing p)"
    "\<not> truthy (q ''error'')" "q ''code'' = Some c" "c \<noteq> []"
  shows "step (Request n ''/'' q) w = getToken (Callback n) c w"
  using assms by (auto simp add: step_Request on_request_def handleCallback_def)

lemma listen_trace:
  assumes "\<not> crashed w" "listener w n = Some Binding" "server (this w) = Some n"
  shows "trace (step (Listen n p) w)
         = SetTimeout n TIMEOUT_MS
           # Spawn (if platform w = ''darwin'' then ''open''
                    else if platform w = ''win32'' then ''cmd'' else ''xdg-open'')
                   (if platform w = ''darwin''
                    then [authUrl (client_id (oauth2Client (this w)))
                            (''http://localhost:'' @ show_nat p)]
                    else if platform w = ''win32''
                    then [''/c'', ''start'', [],
                          authUrl (client_id (oauth2Client (this w)))
                            (''http://localhost:'' @ show_nat p)]
                    else [authUrl (client_id (oauth2Client (this w)))
                            (''http://localhost:'' @ show_nat p)])
           # Print (authUrl (client_id (oauth2Client (this w)))
                      (''http://localhost:'' @ show_nat p))
           # Print (''If browser doesn'' @ [CHR 0x27] @ ''t open, visit this URL:'')
           # Print ''Opening browser for authorization...''
           # trace w"
  using assms by (simp add: step_Listen on_listening_def Let_def address_def)

subsection \<open>A settled promise keeps its value\<close>

lemma step_promise_stable: "promise w n = Some r \<Longrightarrow> promise (step e w) n = Some r"
  unfolding step_def
  by (cases e) (auto simp add: handlers Let_def
      split: option.splits listener_state.splits sum.splits continuation.splits)

lemma run_promise_stable: "promise w n = Some r \<Longrightarrow> promise (run evs w) n = Some r"
  by (induction evs arbitrary: w) (simp_all add: step_promise_stable)

lemma delivered_boot: "delivered (boot plat cid cs)"
  by (simp add: delivered_def boot_def)

lemma delivered_step: "delivered w \<Longrightarrow> delivered (step e w)"
  unfolding step_def delivered_def
  by (cases e) (auto simp add: handlers Let_def 
      split: option.splits listener_state.splits sum.splits continuation.splits)

lemma delivered_run: "delivered w \<Longrightarrow> delivered (run evs w)"
  by (induction evs arbitrary: w) (simp_all add: delivered_step)

lemma delivered_reached: "delivered (run evs (boot plat cid cs))"
  by (rule delivered_run [OF delivered_boot])

subsection \<open>Calls in flight\<close>

lemma calls_ok_boot: "calls_ok (boot plat cid cs)"
  by (simp add: calls_ok_def boot_def)

lemma calls_ok_step: "calls_ok w \<Longrightarrow> calls_ok (step e w)"
  unfolding step_def calls_ok_def
  by (cases e) (auto simp add: handlers Let_def less_Suc_eq
      split: option.splits listener_state.splits sum.splits continuation.splits)

lemma calls_ok_run: "calls_ok w \<Longrightarrow> calls_ok (run evs w)"
  by (induction evs arbitrary: w) (simp_all add: calls_ok_step)

text \<open>A call in flight stays in flight as long as the attempt that awaits it is pending.\<close>

lemma awaiting_kept_step:
  assumes "calls_ok w" "awaiting w k = Some c" "c = Callback n \<or> c = Manual n"
    "promise (step e w) n = None"
  shows "awaiting (step e w) k = Some c"
proof -
  from assms(1,2) have k: "k < calls w" by (auto simp: calls_ok_def)
  show ?thesis
    using assms(2-4) k unfolding step_def
    by (cases e) (auto simp add: handlers Let_def
      split: option.splits listener_state.splits sum.splits continuation.splits if_splits)
qed

lemma awaiting_kept_run:
  assumes "calls_ok w" "awaiting w k = Some c" "c = Callback n \<or> c = Manual n"
    "promise (run evs w) n = None"
  shows "awaiting (run evs w) k = Some c"
  using assms
proof (induction evs arbitrary: w)
  case Nil
  then show ?case by simp
next
  case (Cons e evs)
  from Cons.prems(4) have "promise (run evs (step e w)) n = None" by simp
  hence p: "promise (step e w) n = None"
    using run_promise_stable [of "step e w" n _ evs] by (cases "promise (step e w) n") auto
  have "awaiting (step e w) k = Some c"
    using awaiting_kept_step [OF Cons.prems(1,2,3) p] .
  moreover have "calls_ok (step e w)" using Cons.prems(1) by (rule calls_ok_step)
  ultimately show ?case using Cons.IH Cons.prems(3,4) by simp
qed

subsection \<open>Attempts not yet started\<close>

lemma attempts_ok_boot: "attempts_ok (boot plat cid cs)"
  by (simp add: attempts_ok_def boot_def)

lemma attempts_ok_emit [simp]: "attempts_ok (emit e w) = attempts_ok w"
  by (simp add: attempts_ok_def)

lemma attempts_ok_respond [simp]: "attempts_ok (respond n s b w) = attempts_ok w"
  by (simp add: attempts_ok_def)

lemma attempts_ok_cleanup: "attempts_ok w \<Longrightarrow> attempts_ok (cleanup w)"
  unfolding attempts_ok_def
  by (cases "server (this w)"; cases "timeoutId (this w)")
     (auto split: option.splits listener_state.splits)

lemma attempts_ok_resolve: "attempts_ok w \<Longrightarrow> n < attempts w \<Longrightarrow> attempts_ok (resolve n r w)"
  unfolding attempts_ok_def by auto

lemma attempts_ok_getToken:
  "attempts_ok w \<Longrightarrow> c = Callback n \<or> c = Manual n \<Longrightarrow> n < attempts w
   \<Longrightarrow> attempts_ok (getToken c code w)"
  unfolding attempts_ok_def by auto

lemma attempts_ok_crash [simp]: "attempts_ok (w\<lparr>crashed := b\<rparr>) = attempts_ok w"
  by (simp add: attempts_ok_def)

lemma attempts_ok_exists:
  assumes "attempts_ok w"
  shows "listener w n \<noteq> None \<Longrightarrow> n < attempts w" "timer w n \<noteq> None \<Longrightarrow> n < attempts w"
    "prompt w n \<Longrightarrow> n < attempts w"
    "awaiting w k = Some (Callback n) \<Longrightarrow> n < attempts w"
    "awaiting w k = Some (Manual n) \<Longrightarrow> n < attempts w"
  using assms unfolding attempts_ok_def by (metis not_le)+

lemma attempts_ok_step:
  assumes ok: "attempts_ok w"
  shows "attempts_ok (step e w)"
proof (cases "crashed w")
  case True thus ?thesis using ok by (simp add: crashed_step)
next
  case nc: False
  show ?thesis
  proof (cases e)
    case (Authorize m)
    with ok nc show ?thesis
      unfolding attempts_ok_def
      by (cases m) (auto simp add: step_Authorize startAuthFlow_def startManualFlow_def Let_def)
  next
    case (Listen n port)
    show ?thesis
    proof (cases "listener w n = Some Binding")
      case False with Listen show ?thesis using ok by (simp add: step_Listen)
    next
      case True
      hence "n < attempts w" using attempts_ok_exists(1) [OF ok, of n] by simp
      with True Listen ok nc show ?thesis
        unfolding attempts_ok_def
        by (auto simp add: step_Listen on_listening_def Let_def split: option.splits)
    qed
  next
    case (ServerError n m)
    show ?thesis
    proof (cases "listener w n")
      case None with ServerError ok show ?thesis by (simp add: step_ServerError)
    next
      case (Some s)
      hence n: "n < attempts w" using attempts_ok_exists(1) [OF ok, of n] by simp
      have a: "attempts_ok (w\<lparr>listener := (listener w)(n \<mapsto> Dead)\<rparr>)"
        using ok n unfolding attempts_ok_def by auto
      from Some ServerError nc n ok a show ?thesis
        by (cases s) (simp_all add: step_ServerError on_error_def attempts_ok_resolve
            attempts_ok_cleanup)
    qed
  next
    case (Request n pa q)
    show ?thesis
    proof (cases "listener w n")
      case None with Request ok show ?thesis by (simp add: step_Request)
    next
      case (Some s)
      hence n: "n < attempts w" using attempts_ok_exists(1) [OF ok, of n] by simp
      have "attempts_ok (on_request n pa q w)"
        using ok n
        by (simp add: on_request_def handleCallback_def attempts_ok_resolve
            attempts_ok_cleanup attempts_ok_getToken split: option.splits)
      with Some Request ok show ?thesis by (cases s) (simp_all add: step_Request)
    qed
  next
    case (TimerFires n)
    show ?thesis
    proof (cases "timer w n = Some Armed")
      case False with TimerFires ok show ?thesis by (simp add: step_TimerFires)
    next
      case True
      hence n: "n < attempts w" using attempts_ok_exists(2) [OF ok, of n] by simp
      have a: "attempts_ok (w\<lparr>timer := (timer w)(n \<mapsto> Fired)\<rparr>)"
        using ok n unfolding attempts_ok_def by auto
      from True TimerFires nc n a show ?thesis
        by (simp add: step_TimerFires on_timeout_def attempts_ok_resolve attempts_ok_cleanup)
    qed
  next
    case (ExchangeReturns k out)
    show ?thesis
    proof (cases "awaiting w k")
      case None with ExchangeReturns ok show ?thesis by (simp add: step_ExchangeReturns)
    next
      case (Some c)
      have a: "attempts_ok (w\<lparr>awaiting := (awaiting w)(k := None)\<rparr>)"
        using ok unfolding attempts_ok_def by auto
      show ?thesis
      proof (cases c)
        case (Callback n)
        with Some have n: "n < attempts w" using attempts_ok_exists(4) [OF ok, of k n] by simp
        with Callback Some ExchangeReturns nc a show ?thesis
          by (cases out) (simp_all add: step_ExchangeReturns handleCallback_resume_def
              attempts_ok_resolve attempts_ok_cleanup)
      next
        case (Manual n)
        with Some have n: "n < attempts w" using attempts_ok_exists(5) [OF ok, of k n] by simp
        with Manual Some ExchangeReturns nc a show ?thesis
          by (cases out) (simp_all add: step_ExchangeReturns on_input_resume_def
              attempts_ok_resolve)
      qed
    qed
  next
    case (ManualInput n l)
    show ?thesis
    proof (cases "prompt w n")
      case False with ManualInput ok show ?thesis by (simp add: step_ManualInput)
    next
      case True
      hence n: "n < attempts w" using attempts_ok_exists(3) [OF ok, of n] by simp
      have a: "attempts_ok (w\<lparr>prompt := (prompt w)(n := False)\<rparr>)"
        using ok unfolding attempts_ok_def by auto
      from True ManualInput nc n a show ?thesis
        by (cases l) (simp_all add: step_ManualInput on_input_def Let_def attempts_ok_resolve
            attempts_ok_getToken split: option.splits)
    qed
  next
    case (ChildError c m)
    with ok show ?thesis by (simp add: step_ChildError)
  qed
qed

lemma attempts_ok_run: "attempts_ok w \<Longrightarrow> attempts_ok (run evs w)"
  by (induction evs arbitrary: w) (simp_all add: attempts_ok_step)

subsection \<open>One automated attempt\<close>

lemma auto_inv_init: "auto_inv (step (Authorize False) (boot plat cid cs))"
  by (simp add: auto_inv_def step_def boot_def new_OAuthFlow_def startAuthFlow_def Let_def)

lemma auto_inv_Listen: "auto_inv w \<Longrightarrow> auto_inv (step (Listen n p) w)"
  unfolding step_Listen auto_inv_def
  apply (cases "n = 0"; cases "listener w 0"; simp)
  subgoal for a 
    by (cases a; auto simp add: on_listening_def Let_def address_def) 
  done

lemma auto_inv_ServerError: "auto_inv w \<Longrightarrow> auto_inv (step (ServerError n m) w)"
  unfolding step_ServerError auto_inv_def
  apply (cases "n = 0"; cases "listener w 0"; simp)
  subgoal for a 
    by (cases a; auto simp add: on_error_def) 
  done

lemma auto_inv_Request: "auto_inv w \<Longrightarrow> auto_inv (step (Request n pa q) w)"
  unfolding step_Request auto_inv_def
  apply (cases "n = 0"; cases "listener w 0"; simp)
  subgoal for a 
    by (cases a; cases "or_undefined (q ''code'')"; auto simp add: on_request_def handleCallback_def) 
  done

lemma auto_inv_TimerFires: "auto_inv w \<Longrightarrow> auto_inv (step (TimerFires n) w)"
  unfolding step_TimerFires auto_inv_def
  apply (cases "n = 0"; cases "listener w 0"; simp)
  subgoal for a 
    by (cases a; auto simp add: on_timeout_def) 
  done

lemma auto_inv_ExchangeReturns: "auto_inv w \<Longrightarrow> auto_inv (step (ExchangeReturns k out) w)"
proof (cases "crashed w \<or> awaiting w k = None")
  case True
  assume "auto_inv w"
  with True show ?thesis by (auto simp: step_ExchangeReturns)
next
  case False
  assume inv: "auto_inv w"
  from False inv have aw: "awaiting w k = Some (Callback 0)" by (auto simp: auto_inv_def)
  from False have nc: "\<not> crashed w" by simp
  have st: "step (ExchangeReturns k out) w
            = handleCallback_resume 0 out (w\<lparr>awaiting := (awaiting w)(k := None)\<rparr>)"
    using aw nc by (simp add: step_ExchangeReturns)
  from inv obtain s where ls: "listener w 0 = Some s" by (auto simp: auto_inv_def)
  show ?thesis
  proof (cases s)
    case Binding
    with ls inv aw show ?thesis by (simp add: auto_inv_def)
  next
    case (Listening p)
    with ls inv show ?thesis unfolding st auto_inv_def
      by (cases out) (simp_all add: handleCallback_resume_def)
  next
    case (Closing p)
    with ls inv show ?thesis unfolding st auto_inv_def
      by (cases out) (auto simp add: handleCallback_resume_def)
  next
    case Dead
    with ls inv show ?thesis unfolding st auto_inv_def
      by (cases out) (auto simp add: handleCallback_resume_def)
  qed
qed

lemma auto_inv_ManualInput: "auto_inv w \<Longrightarrow> step (ManualInput n l) w = w"
  unfolding step_ManualInput auto_inv_def by simp

lemma auto_inv_ChildError: "auto_inv w \<Longrightarrow> auto_inv (step (ChildError n m) w)"
  unfolding step_ChildError auto_inv_def by simp

lemma auto_inv_step: "auto_inv w \<Longrightarrow> \<not> is_authorize e \<Longrightarrow> auto_inv (step e w)"
  by (cases e) (simp_all add: auto_inv_Listen auto_inv_ServerError auto_inv_Request
     auto_inv_TimerFires auto_inv_ExchangeReturns auto_inv_ManualInput auto_inv_ChildError)

lemma auto_inv_run: "auto_inv w \<Longrightarrow> one_attempt evs \<Longrightarrow> auto_inv (run evs w)"
  by (induction evs arbitrary: w) (simp_all add: one_attempt_def auto_inv_step)

lemma auto_inv_reached:
  assumes "one_attempt evs" 
  shows "auto_inv (run evs (step (Authorize False) (boot plat cid cs)))"
  using auto_inv_run [OF auto_inv_init assms] .

lemma auto_inv_settled:
  assumes "auto_inv w" "promise w 0 = Some r"
  shows "closed (listener w 0) \<and> timer w 0 \<noteq> Some Armed \<and> server (this w) = None
         \<and> timeoutId (this w) = None"
proof -
  from assms(1) obtain s where ls: "listener w 0 = Some s" by (auto simp: auto_inv_def)
  show ?thesis using assms ls unfolding auto_inv_def by (cases s) auto
qed

text \<open>Once the attempt is settled nothing is closed or cleared again.\<close>

lemma settled_step_quiet:
  assumes inv: "auto_inv w" and p: "promise w 0 = Some r" and e: "\<not> is_authorize e"
  shows "closed_servers (trace (step e w)) = closed_servers (trace w)
         \<and> cleared_timers (trace (step e w)) = cleared_timers (trace w)"
proof -
  from auto_inv_settled [OF inv p]
  have h: "server (this w) = None" "timeoutId (this w) = None" "timer w 0 \<noteq> Some Armed" by simp_all
  from inv have o: "\<And>n. n \<noteq> 0 \<Longrightarrow> timer w n = None" "\<And>n. \<not> prompt w n"
    "\<And>k c. awaiting w k = Some c \<Longrightarrow> c = Callback 0"
    by (auto simp: auto_inv_def)
  show ?thesis
  proof (cases e)
    case (Authorize m) with e show ?thesis by simp
  next
    case (Listen n port)
    from inv p have "listener w n \<noteq> Some Binding" by (cases "n = 0") (auto simp: auto_inv_def)
    with Listen show ?thesis by (simp add: step_Listen)
  next
    case (ServerError n m)
    with h show ?thesis
      by (simp add: step_ServerError on_error_def split: option.splits listener_state.splits)
  next
    case (Request n pa q)
    with h show ?thesis
      by (simp add: step_Request on_request_def handleCallback_def
          split: option.splits listener_state.splits)
  next
    case (TimerFires n)
    with h o(1) [of n] show ?thesis by (cases "n = 0") (simp_all add: step_TimerFires)
  next
    case (ExchangeReturns k out)
    show ?thesis
    proof (cases "awaiting w k")
      case None with ExchangeReturns show ?thesis by (simp add: step_ExchangeReturns)
    next
      case (Some c)
      with o(3) have "c = Callback 0" by simp
      with Some ExchangeReturns h show ?thesis
        by (cases out) (simp_all add: step_ExchangeReturns handleCallback_resume_def)
    qed
  next
    case (ManualInput n l) with o(2) show ?thesis by (simp add: step_ManualInput)
  next
    case (ChildError c m) thus ?thesis by (simp add: step_ChildError)
  qed
qed

lemma settled_run_quiet:
  assumes "auto_inv w" "promise w 0 = Some r" "one_attempt evs"
  shows "closed_servers (trace (run evs w)) = closed_servers (trace w)
         \<and> cleared_timers (trace (run evs w)) = cleared_timers (trace w)"
  using assms
proof (induction evs arbitrary: w)
  case Nil thus ?case by simp
next
  case (Cons e evs)
  from Cons.prems(3) have e: "\<not> is_authorize e" and es: "one_attempt evs"
    by (simp_all add: one_attempt_def)
  have "auto_inv (step e w)" using Cons.prems(1) e by (rule auto_inv_step)
  moreover have "promise (step e w) 0 = Some r" using Cons.prems(2) by (rule step_promise_stable)
  ultimately have "closed_servers (trace (run evs (step e w))) = closed_servers (trace (step e w))
         \<and> cleared_timers (trace (run evs (step e w))) = cleared_timers (trace (step e w))"
    using es by (rule Cons.IH)
  with settled_step_quiet [OF Cons.prems(1,2) e] show ?case by simp
qed

subsection \<open>One manual attempt\<close>

lemma manual_inv_init: "manual_inv (step (Authorize True) (boot plat cid cs))"
  by (simp add: manual_inv_def step_def boot_def new_OAuthFlow_def startManualFlow_def Let_def)

lemma manual_inv_step:
  assumes inv: "manual_inv w" and e: "\<not> is_authorize e"
  shows "manual_inv (step e w)"
proof (cases e)
  case (Authorize m) with e show ?thesis by simp
next
  case (Listen n port) with inv show ?thesis by (simp add: step_Listen manual_inv_def)
next
  case (ServerError n m) with inv show ?thesis by (simp add: step_ServerError manual_inv_def)
next
  case (Request n pa q) with inv show ?thesis by (simp add: step_Request manual_inv_def)
next
  case (TimerFires n) with inv show ?thesis by (simp add: step_TimerFires manual_inv_def)
next
  case (ExchangeReturns k out)
  show ?thesis
  proof (cases "awaiting w k")
    case None with ExchangeReturns inv show ?thesis by (simp add: step_ExchangeReturns)
  next
    case (Some c)
    with inv obtain n where c: "c = Manual n" by (cases c) (auto simp: manual_inv_def)
    from Some inv have "exchanged (trace w) \<noteq> []" "\<not> prompt w 0" by (auto simp: manual_inv_def)
    with Some c ExchangeReturns inv show ?thesis
      unfolding manual_inv_def
      by (cases out) (simp_all add: step_ExchangeReturns on_input_resume_def)
  qed
next
  case (ManualInput n l)
  show ?thesis
  proof (cases "prompt w n")
    case False with ManualInput inv show ?thesis by (simp add: step_ManualInput)
  next
    case True
    with inv have n: "n = 0" by (auto simp: manual_inv_def)
    with True ManualInput inv show ?thesis
      unfolding manual_inv_def
      by (cases l) (simp_all add: step_ManualInput on_input_def Let_def split: option.splits)
  qed
next
  case (ChildError c m) with inv show ?thesis by (simp add: step_ChildError manual_inv_def)
qed

lemma manual_inv_run: "manual_inv w \<Longrightarrow> one_attempt evs \<Longrightarrow> manual_inv (run evs w)"
  by (induction evs arbitrary: w) (simp_all add: one_attempt_def manual_inv_step)

lemma manual_inv_reached:
  assumes "one_attempt evs"
  shows "manual_inv (run evs (step (Authorize True) (boot plat cid cs)))"
  using manual_inv_run [OF manual_inv_init assms] .

text \<open>With no call in flight, only a pasted line makes a manual attempt move.\<close>

lemma manual_step_inert:
  assumes inv: "manual_inv w" and e: "\<not> is_authorize e" "\<not> is_input e"
    and a: "\<forall>k. awaiting w k = None"
  shows "prompt (step e w) = prompt w \<and> promise (step e w) = promise w
         \<and> trace (step e w) = trace w \<and> awaiting (step e w) = awaiting w"
  using inv e a
  by (cases e) (simp_all add: manual_inv_def step_Listen step_ServerError step_Request
      step_TimerFires step_ExchangeReturns step_ChildError)

lemma manual_waits:
  assumes "manual_inv w" "prompt w 0" "one_attempt evs" "no_input evs"
  shows "prompt (run evs w) 0 \<and> promise (run evs w) 0 = None \<and> trace (run evs w) = trace w"
  using assms
proof (induction evs arbitrary: w)
  case Nil thus ?case by (simp add: manual_inv_def)
next
  case (Cons e evs)
  from Cons.prems(3,4) have e: "\<not> is_authorize e" "\<not> is_input e"
    and es: "one_attempt evs" "no_input evs"
    by (simp_all add: one_attempt_def no_input_def)
  from Cons.prems(1,2) have a: "\<forall>k. awaiting w k = None" by (simp add: manual_inv_def)
  note i = manual_step_inert [OF Cons.prems(1) e a]
  have "manual_inv (step e w)" using Cons.prems(1) e(1) by (rule manual_inv_step)
  moreover have "prompt (step e w) 0" using i Cons.prems(2) by simp
  ultimately show ?case using Cons.IH [OF _ _ es] i by simp
qed

lemma manual_quiet:
  assumes "manual_inv w" "\<not> prompt w 0" "exchanged (trace w) = []" "one_attempt evs"
  shows "trace (run evs w) = trace w \<and> promise (run evs w) = promise w"
  using assms
proof (induction evs arbitrary: w)
  case Nil thus ?case by simp
next
  case (Cons e evs)
  from Cons.prems(4) have e: "\<not> is_authorize e" and es: "one_attempt evs"
    by (simp_all add: one_attempt_def)
  from Cons.prems(1,3) have a: "\<forall>k. awaiting w k = None" by (simp add: manual_inv_def)
  have np: "\<not> prompt w n" for n
    using Cons.prems(1,2) by (cases "n = 0") (simp_all add: manual_inv_def)
  have i: "prompt (step e w) = prompt w \<and> promise (step e w) = promise w
         \<and> trace (step e w) = trace w"
  proof (cases "is_input e")
    case True
    then obtain n l where "e = ManualInput n l" by (cases e) simp_all
    thus ?thesis using np by (simp add: step_ManualInput)
  next
    case False
    from manual_step_inert [OF Cons.prems(1) e False a] show ?thesis by simp
  qed
  have "manual_inv (step e w)" using Cons.prems(1) e by (rule manual_inv_step)
  from Cons.IH [OF this _ _ es] i Cons.prems(2,3) show ?case by simp
qed

subsection \<open>The authorization URL\<close>

lemma scopeStr_value:
  "scopeStr = ''https%3A%2F%2Fmail.google.com%2F%20https%3A%2F%2Fwww.googleapis.com%2Fauth%2Fcalendar%20https%3A%2F%2Fwww.googleapis.com%2Fauth%2Fdrive''"
  by code_simp

lemma scopeStr_no_delimiter: "CHR ''&'' \<notin> set scopeStr"
  by (simp add: scopeStr_value)

lemma hex_digit_in: "hex_digit n \<in> set ''0123456789ABCDEF''"
  unfolding hex_digit_def by (rule nth_mem) simp

lemma encodeURIComponent_chars:
  assumes "c \<in> set (encodeURIComponent s)"
  shows "unreserved c \<or> c = CHR ''%'' \<or> c \<in> set ''0123456789ABCDEF''"
proof -
  from assms obtain x where "x \<in> set s" "c \<in> set (if unreserved x then [x] else percent x)"
    by (auto simp add: encodeURIComponent_def)
  thus ?thesis using hex_digit_in by (auto simp add: percent_def split: if_splits)
qed

lemma encodeURIComponent_no_delimiter [simp]:
  "CHR ''&'' \<notin> set (encodeURIComponent s)" "CHR ''#'' \<notin> set (encodeURIComponent s)"
  "CHR ''='' \<notin> set (encodeURIComponent s)" "CHR ''?'' \<notin> set (encodeURIComponent s)"
  using encodeURIComponent_chars [of _ s] by (auto simp add: unreserved_def)

lemma enc_manual_redirect:
  "encodeURIComponent ''http://localhost:1'' = ''http%3A%2F%2Flocalhost%3A1''"
  by (simp add: encodeURIComponent_def unreserved_def percent_def hex_digit_def)

lemma show_nat_8080: "show_nat 8080 = ''8080''"
  by (simp add: show_nat.simps digit_char_def)

lemma takeWhile_notin_append:
  "c \<notin> set xs \<Longrightarrow> takeWhile (\<lambda>x. x \<noteq> c) (xs @ ys) = xs @ takeWhile (\<lambda>x. x \<noteq> c) ys"
  by (induction xs) auto

lemma split_on_no_sep: "c \<notin> set s \<Longrightarrow> split_on c s = [s]"
  by (induction s) auto

lemma split_on_append_sep: "c \<notin> set s \<Longrightarrow> split_on c (s @ c # rest) = s # split_on c rest"
  by (induction s) auto

lemma split_on_join:
  "segs \<noteq> [] \<Longrightarrow> (\<And>s. s \<in> set segs \<Longrightarrow> c \<notin> set s) \<Longrightarrow> split_on c (join [c] segs) = segs"
proof (induction "[c]" segs rule: join.induct)
  case 1
  then show ?case by simp
next
  case (2 x)
  then show ?case by (simp add: split_on_no_sep)
next
  case (3 x y ys)
  have "split_on c (x @ c # join [c] (y # ys)) = x # split_on c (join [c] (y # ys))"
    using "3.prems"(2) [of x] by (simp add: split_on_append_sep)
  moreover have "split_on c (join [c] (y # ys)) = y # ys"
    using "3.prems"(2) by (intro "3.hyps") auto
  ultimately show ?case by simp
qed

lemma url_query_authUrl:
  assumes "CHR ''#'' \<notin> set clientId"
  shows "url_query (authUrl clientId redirectUri)
         = join ''&'' [''client_id='' @ clientId,
                       ''redirect_uri='' @ encodeURIComponent redirectUri,
                       ''response_type=code'',
                       ''scope='' @ scopeStr,
                       ''access_type=offline'',
                       ''prompt=consent'']"
  using assms
  by (simp add: url_query_def authUrl_def endpoint_def takeWhile_notin_append scopeStr_value)

lemma authorize_result_nonempty: "authorize_result r \<noteq> Inr []"
  by (cases "refreshToken r") (auto simp add: authorize_result_def)

lemmas evals = step_def boot_def new_OAuthFlow_def handlers Let_def address_def

section \<open>The claims\<close>

subsection \<open>C1: a valid code and a token give the refresh token\<close>

text \<open>
  C1, as amended. Take any run of the program and a moment in it at which the server of attempt
  \<open>n\<close> listens. A request to \<open>/\<close> arrives with a nonempty \<open>code\<close> and no (or an empty)
  \<open>error\<close> parameter: that code is handed to \<^verbatim>\<open>getToken\<close>. Whatever happens while
  the exchange is in flight, if the attempt is still pending when \<^verbatim>\<open>getToken\<close>
  answers with tokens that hold a nonempty refresh token \<open>r\<close>, then \<^verbatim>\<open>authorize\<close>
  returns \<open>r\<close>.
\<close>

theorem C1_valid_code_returns_refresh_token:
  assumes "w = run evs0 (boot plat cid cs)"
    and "\<not> crashed w" and "listener w n = Some (Listening p)"
    and "\<not> truthy (q ''error'')" and "q ''code'' = Some c" and "c \<noteq> []"
    and "refresh_token tokens = Some r" and "r \<noteq> []"
    and "w' = run evs (step (Request n ''/'' q) w)"
    and "promise w' n = None" and "\<not> crashed w'"
  shows "exchanged (trace (step (Request n ''/'' q) w)) = c # exchanged (trace w)
         \<and> authorize (step (ExchangeReturns (calls w) (Inr tokens)) w') n = Some (Inr r)"
proof -
  have ok: "calls_ok w"
    unfolding assms(1) by (rule calls_ok_run [OF calls_ok_boot])
  have req: "step (Request n ''/'' q) w = getToken (Callback n) c w"
    using assms(2-6) by (simp add: request_hands_code_over)
  have ok1: "calls_ok (step (Request n ''/'' q) w)"
    using ok by (rule calls_ok_step)
  have aw1: "awaiting (step (Request n ''/'' q) w) (calls w) = Some (Callback n)"
    by (simp add: req)
  have aw: "awaiting w' (calls w) = Some (Callback n)"
    unfolding assms(9)
    by (rule awaiting_kept_run [OF ok1 aw1, of n]) (use assms(9,10) in simp_all)
  have "promise (step (ExchangeReturns (calls w) (Inr tokens)) w') n
        = Some \<lparr>success = True, refreshToken = Some r, error = None\<rparr>"
    using aw assms(7,8,10,11) by (simp add: step_ExchangeReturns handleCallback_resume_def)
  hence "authorize (step (ExchangeReturns (calls w) (Inr tokens)) w') n = Some (Inr r)"
    using assms(8) by (simp add: authorize_def authorize_result_def)
  moreover have "exchanged (trace (step (Request n ''/'' q) w)) = c # exchanged (trace w)"
    by (simp add: req)
  ultimately show ?thesis by simp
qed

theorem C1_witness:
  "authorize
     (run [Authorize False, Listen 0 8080, Request 0 ''/'' (query_of [(''code'', ''4/abc'')]),
           Request 0 ''/favicon.ico'' (query_of []),
           ExchangeReturns 0 (Inr \<lparr>refresh_token = Some ''1//r'', access_token = None\<rparr>)]
        (boot ''linux'' ''id'' ''secret'')) 0
   = Some (Inr ''1//r'')"
proof -
  define w where "w = run [Authorize False, Listen 0 8080] (boot ''linux'' ''id'' ''secret'')"
  define w' where "w' = run [Request 0 ''/favicon.ico'' (query_of [])]
                          (step (Request 0 ''/'' (query_of [(''code'', ''4/abc'')])) w)"
  have h1: "\<not> crashed w" and h2: "listener w 0 = Some (Listening 8080)" and c: "calls w = 0"
    by (simp_all add: w_def evals)
  have h3: "promise w' 0 = None" and h4: "\<not> crashed w'"
    by (simp_all add: w'_def w_def evals query_of_def)
  have q: "\<not> truthy (query_of [(''code'', ''4/abc'')] ''error'')"
    "query_of [(''code'', ''4/abc'')] ''code'' = Some ''4/abc''"
    by (simp_all add: query_of_def)
  have "authorize (step (ExchangeReturns (calls w)
          (Inr \<lparr>refresh_token = Some ''1//r'', access_token = None\<rparr>)) w') 0
        = Some (Inr ''1//r'')"
    using C1_valid_code_returns_refresh_token
      [OF w_def h1 h2 q _ _ _ w'_def h3 h4,
       of "\<lparr>refresh_token = Some ''1//r'', access_token = None\<rparr>" "''1//r''"]
    by simp
  from this [unfolded c] show ?thesis by (simp add: w'_def w_def)
qed

text \<open>
  The claim C1 as stated fails: the timer is cleared only by the cleanup after the
  exchange, so a deadline that runs out while \<^verbatim>\<open>getToken\<close> is in flight settles the
  attempt, and \<^verbatim>\<open>authorize\<close> throws ``Authorization timed out'' although a valid code
  was delivered and the exchange then answers with a refresh token.
\<close>

theorem C1_counterexample:
  "authorize (run [Authorize False, Listen 0 8080,
        Request 0 ''/'' (query_of [(''code'', ''4/abc'')]),
        TimerFires 0,
        ExchangeReturns 0 (Inr \<lparr>refresh_token = Some ''1//r'', access_token = None\<rparr>)]
      (boot ''linux'' ''id'' ''secret'')) 0
   = Some (Inl ''Authorization timed out'')"
  by (simp add: evals authorize_def authorize_result_def query_of_def)

subsection \<open>C2: requests after the attempt is settled\<close>

text \<open>
  C2, as amended. In a run of one automated attempt, once the promise is settled no
  later event changes its value and nothing is closed or cleared again. The
  handler has no resolved flag: a later request to \<open>/\<close> that reaches the closing
  server with a nonempty \<open>code\<close> and no \<open>error\<close> is handed to \<^verbatim>\<open>getToken\<close> again
  (and leaves the outcome as it is).
\<close>

theorem C2_settled_outcome_is_final:
  assumes "one_attempt evs0"
    and "w = run evs0 (step (Authorize False) (boot plat cid cs))"
    and "promise w 0 = Some r"
    and "one_attempt evs" and "w' = run evs w"
  shows "promise w' 0 = Some r
         \<and> closed_servers (trace w') = closed_servers (trace w)
         \<and> cleared_timers (trace w') = cleared_timers (trace w)
         \<and> (\<not> crashed w' \<and> listener w' 0 = Some (Closing p) \<and> \<not> truthy (q ''error'')
              \<and> q ''code'' = Some c \<and> c \<noteq> []
             \<longrightarrow> exchanged (trace (step (Request 0 ''/'' q) w')) = c # exchanged (trace w')
                 \<and> promise (step (Request 0 ''/'' q) w') 0 = Some r)"
proof -
  have inv: "auto_inv w" unfolding assms(2) using assms(1) by (rule auto_inv_reached)
  have p: "promise w' 0 = Some r" unfolding assms(5) using assms(3) by (rule run_promise_stable)
  have "exchanged (trace (step (Request 0 ''/'' q) w')) = c # exchanged (trace w')"
    if "\<not> crashed w'" "listener w' 0 = Some (Closing p)" "\<not> truthy (q ''error'')"
      "q ''code'' = Some c" "c \<noteq> []"
    using that by (simp add: request_hands_code_over)
  moreover have "promise (step (Request 0 ''/'' q) w') 0 = Some r"
    using p by (rule step_promise_stable)
  ultimately show ?thesis
    using p settled_run_quiet [OF inv assms(3,4)] by (simp add: assms(5))
qed

theorem C2_witness:
  "promise (run [Authorize False, Listen 0 8080,
        Request 0 ''/'' (query_of [(''code'', ''4/abc'')]),
        ExchangeReturns 0 (Inr \<lparr>refresh_token = Some ''1//r'', access_token = None\<rparr>),
        Request 0 ''/'' (query_of [(''error'', ''access_denied'')]),
        Request 0 ''/'' (query_of [(''code'', ''4/xyz'')])]
      (boot ''linux'' ''id'' ''secret'')) 0
     = Some \<lparr>success = True, refreshToken = Some ''1//r'', error = None\<rparr>
   \<and> exchanged (trace (run [Authorize False, Listen 0 8080,
        Request 0 ''/'' (query_of [(''code'', ''4/abc'')]),
        ExchangeReturns 0 (Inr \<lparr>refresh_token = Some ''1//r'', access_token = None\<rparr>),
        Request 0 ''/'' (query_of [(''error'', ''access_denied'')]),
        Request 0 ''/'' (query_of [(''code'', ''4/xyz'')])]
      (boot ''linux'' ''id'' ''secret''))) = [''4/xyz'', ''4/abc'']"
proof -
  define evs0 where "evs0 = [Listen 0 8080, Request 0 ''/'' (query_of [(''code'', ''4/abc'')]),
        ExchangeReturns 0 (Inr \<lparr>refresh_token = Some ''1//r'', access_token = None\<rparr>)]"
  define w where "w = run evs0 (step (Authorize False) (boot ''linux'' ''id'' ''secret''))"
  define evs where "evs = [Request 0 ''/'' (query_of [(''error'', ''access_denied'')])]"
  define w' where "w' = run evs w"
  have a: "one_attempt evs0" and b: "one_attempt evs"
    by (simp_all add: one_attempt_def evs0_def evs_def)
  have p: "promise w 0 = Some \<lparr>success = True, refreshToken = Some ''1//r'', error = None\<rparr>"
    by (simp add: w_def evs0_def evals query_of_def)
  have h: "\<not> crashed w'" "listener w' 0 = Some (Closing 8080)"
    "exchanged (trace w') = [''4/abc'']"
    by (simp_all add: w'_def evs_def w_def evs0_def evals query_of_def)
  have q: "\<not> truthy (query_of [(''code'', ''4/xyz'')] ''error'')"
    "query_of [(''code'', ''4/xyz'')] ''code'' = Some ''4/xyz''"
    by (simp_all add: query_of_def)
  from C2_settled_outcome_is_final [OF a w_def p b w'_def, of 8080 "query_of [(''code'', ''4/xyz'')]" "''4/xyz''"]
    h q
  show ?thesis by (simp add: w'_def evs_def w_def evs0_def)
qed

text \<open>
  The claim C2 as stated fails: after the attempt was settled by a first request
  with a code, a second one sent to \<open>/\<close> makes a second \<^verbatim>\<open>getToken\<close> call.
\<close>

theorem C2_counterexample:
  "promise (run [Authorize False, Listen 0 8080,
        Request 0 ''/'' (query_of [(''code'', ''4/abc'')]),
        ExchangeReturns 0 (Inr \<lparr>refresh_token = Some ''1//r'', access_token = None\<rparr>)]
      (boot ''linux'' ''id'' ''secret'')) 0
     = Some \<lparr>success = True, refreshToken = Some ''1//r'', error = None\<rparr>
   \<and> exchanged (trace (run [Authorize False, Listen 0 8080,
        Request 0 ''/'' (query_of [(''code'', ''4/abc'')]),
        ExchangeReturns 0 (Inr \<lparr>refresh_token = Some ''1//r'', access_token = None\<rparr>)]
      (boot ''linux'' ''id'' ''secret''))) = [''4/abc'']
   \<and> exchanged (trace (run [Authorize False, Listen 0 8080,
        Request 0 ''/'' (query_of [(''code'', ''4/abc'')]),
        ExchangeReturns 0 (Inr \<lparr>refresh_token = Some ''1//r'', access_token = None\<rparr>),
        Request 0 ''/'' (query_of [(''code'', ''4/abc'')])]
      (boot ''linux'' ''id'' ''secret''))) = [''4/abc'', ''4/abc'']"
  by (simp add: evals query_of_def)

subsection \<open>C3: cleanup before the result\<close>

text \<open>
  C3. In every run of one automated attempt: every \<^verbatim>\<open>resolve\<close> comes after the
  \<^verbatim>\<open>close()\<close> of the attempt's server and, when the timer was set, after its
  \<^verbatim>\<open>clearTimeout\<close>; whenever the promise holds a result, that result was passed to
  \<^verbatim>\<open>resolve\<close>, the server is closed, the timer is not armed and the instance holds
  neither handle. And while the attempt is pending each terminal path runs the
  cleanup and then delivers its result: a server error (the bind failure while
  the server binds), and once the server listens the timeout, a callback with an
  error, a callback without a code, the answer of the token exchange and an
  exception raised by it.
\<close>

theorem C3_cleanup_before_result:
  assumes "one_attempt evs"
    and "w = run evs (step (Authorize False) (boot plat cid cs))"
  shows "released_first (trace w)
         \<and> (\<forall>r. promise w 0 = Some r \<longrightarrow>
               Resolve 0 r \<in> set (trace w) \<and> closed (listener w 0) \<and> timer w 0 \<noteq> Some Armed
               \<and> server (this w) = None \<and> timeoutId (this w) = None)
         \<and> (\<not> crashed w \<and> promise w 0 = None \<longrightarrow>
               ends_with w (step (ServerError 0 msg) w) []
                 \<lparr>success = False, refreshToken = None, error = Some msg\<rparr>
               \<and> (listener w 0 \<noteq> Some Binding \<longrightarrow>
                    ends_with w (step (TimerFires 0) w)
                      [Print ''Authorization timed out after 2 minutes'']
                      \<lparr>success = False, refreshToken = None,
                         error = Some ''Authorization timed out''\<rparr>
                    \<and> (truthy (q ''error'') \<longrightarrow>
                         ends_with w (step (Request 0 ''/'' q) w)
                           [Respond 0 200
                              ''<html><body><h1>Authorization cancelled</h1></body></html>'']
                           \<lparr>success = False, refreshToken = None, error = q ''error''\<rparr>)
                    \<and> (\<not> truthy (q ''error'') \<and> \<not> truthy (q ''code'') \<longrightarrow>
                         ends_with w (step (Request 0 ''/'' q) w)
                           [Respond 0 400
                              ''<html><body><h1>No authorization code</h1></body></html>'']
                           \<lparr>success = False, refreshToken = None,
                              error = Some ''No authorization code''\<rparr>)
                    \<and> (awaiting w k \<noteq> None \<longrightarrow>
                         ends_with w (step (ExchangeReturns k (Inr tokens)) w)
                           [Respond 0 200
                              ''<html><body><h1>Success!</h1><p>You can close this window.</p></body></html>'']
                           \<lparr>success = True,
                              refreshToken = or_undefined (refresh_token tokens),
                              error = None\<rparr>
                         \<and> ends_with w (step (ExchangeReturns k (Inl msg)) w)
                             [Respond 0 500
                                (''<html><body><h1>Error</h1><p>'' @ msg
                                   @ ''</p></body></html>'')]
                             \<lparr>success = False, refreshToken = None, error = Some msg\<rparr>)))"
proof -
  have inv: "auto_inv w" unfolding assms(2) using assms(1) by (rule auto_inv_reached)
  have "w = run (Authorize False # evs) (boot plat cid cs)" by (simp add: assms(2))
  hence d: "delivered w" by (simp only: delivered_reached)
  have a: "released_first (trace w)" using inv by (simp add: auto_inv_def)
  have b: "Resolve 0 r \<in> set (trace w)" if "promise w 0 = Some r" for r
    using d that by (simp add: delivered_def)
  have c: ?thesis if nc: "\<not> crashed w" and p: "promise w 0 = None"
  proof -
    from inv obtain s where ls: "listener w 0 = Some s" by (auto simp: auto_inv_def)
    show ?thesis
    proof (cases s)
      case Binding
      with ls inv have f: "server (this w) = Some 0" "timeoutId (this w) = None"
        "timer w 0 = None" by (simp_all add: auto_inv_def)
      have "ends_with w (step (ServerError 0 msg) w) []
                 \<lparr>success = False, refreshToken = None, error = Some msg\<rparr>"
        using ls Binding f nc p by (simp add: ends_with_def step_ServerError on_error_def)
      with a p ls Binding show ?thesis by simp
    next
      case (Listening port)
      with ls inv have f: "server (this w) = Some 0" "timeoutId (this w) = Some 0"
        "timer w 0 = Some Armed" by (simp_all add: auto_inv_def)
      from inv have aw: "\<And>c. awaiting w k = Some c \<Longrightarrow> c = Callback 0"
        by (simp add: auto_inv_def)
      have e1: "ends_with w (step (ServerError 0 msg) w) []
                 \<lparr>success = False, refreshToken = None, error = Some msg\<rparr>"
        using ls Listening f nc p by (simp add: ends_with_def step_ServerError on_error_def)
      have e2: "ends_with w (step (TimerFires 0) w)
                      [Print ''Authorization timed out after 2 minutes'']
                      \<lparr>success = False, refreshToken = None,
                         error = Some ''Authorization timed out''\<rparr>"
        using ls Listening f nc p by (simp add: ends_with_def step_TimerFires on_timeout_def)
      have e3: "ends_with w (step (Request 0 ''/'' q) w)
                           [Respond 0 200
                              ''<html><body><h1>Authorization cancelled</h1></body></html>'']
                           \<lparr>success = False, refreshToken = None, error = q ''error''\<rparr>"
        if "truthy (q ''error'')"
        using that ls Listening f nc p
        by (simp add: ends_with_def step_Request on_request_def handleCallback_def)
      have e4: "ends_with w (step (Request 0 ''/'' q) w)
                           [Respond 0 400
                              ''<html><body><h1>No authorization code</h1></body></html>'']
                           \<lparr>success = False, refreshToken = None,
                              error = Some ''No authorization code''\<rparr>"
        if "\<not> truthy (q ''error'')" "\<not> truthy (q ''code'')"
      proof -
        from that(2) have "or_undefined (q ''code'') = None" by (cases "q ''code''") auto
        thus ?thesis using that(1) ls Listening f nc p
          by (simp add: ends_with_def step_Request on_request_def handleCallback_def)
      qed
      have e5: "ends_with w (step (ExchangeReturns k (Inr tokens)) w)
                           [Respond 0 200
                              ''<html><body><h1>Success!</h1><p>You can close this window.</p></body></html>'']
                           \<lparr>success = True,
                              refreshToken = or_undefined (refresh_token tokens),
                              error = None\<rparr>
                \<and> ends_with w (step (ExchangeReturns k (Inl msg)) w)
                             [Respond 0 500
                                (''<html><body><h1>Error</h1><p>'' @ msg
                                   @ ''</p></body></html>'')]
                             \<lparr>success = False, refreshToken = None, error = Some msg\<rparr>"
        if "awaiting w k \<noteq> None"
      proof -
        from that aw have "awaiting w k = Some (Callback 0)" by auto
        thus ?thesis using ls Listening f nc p
          by (simp add: ends_with_def step_ExchangeReturns handleCallback_resume_def)
      qed
      from a p e1 e2 e3 e4 e5 show ?thesis by simp
    next
      case (Closing port)
      with ls inv p show ?thesis by (simp add: auto_inv_def)
    next
      case Dead
      with ls inv p show ?thesis by (simp add: auto_inv_def)
    qed
  qed
  show ?thesis
  proof (cases "\<not> crashed w \<and> promise w 0 = None")
    case True thus ?thesis using c by simp
  next
    case False
    with a b auto_inv_settled [OF inv] show ?thesis by blast
  qed
qed

theorem C3_witness:
  "promise (run [Authorize False, ServerError 0 ''listen EACCES''] (boot ''linux'' ''id'' ''secret'')) 0
     = Some \<lparr>success = False, refreshToken = None, error = Some ''listen EACCES''\<rparr>
   \<and> trace (run [Authorize False, ServerError 0 ''listen EACCES''] (boot ''linux'' ''id'' ''secret''))
     = [Resolve 0 \<lparr>success = False, refreshToken = None, error = Some ''listen EACCES''\<rparr>,
        CloseServer 0]
   \<and> promise (run [Authorize False, Listen 0 8080, TimerFires 0] (boot ''linux'' ''id'' ''secret'')) 0
     = Some \<lparr>success = False, refreshToken = None, error = Some ''Authorization timed out''\<rparr>
   \<and> closed_servers (trace (run [Authorize False, Listen 0 8080, TimerFires 0]
        (boot ''linux'' ''id'' ''secret''))) = [0]
   \<and> cleared_timers (trace (run [Authorize False, Listen 0 8080, TimerFires 0]
        (boot ''linux'' ''id'' ''secret''))) = [0]
   \<and> closed (listener (run [Authorize False, Listen 0 8080, TimerFires 0]
        (boot ''linux'' ''id'' ''secret'')) 0)
   \<and> released_first (trace (run [Authorize False, Listen 0 8080,
        Request 0 ''/'' (query_of [(''code'', ''4/abc'')]),
        ExchangeReturns 0 (Inl ''invalid_grant'')] (boot ''linux'' ''id'' ''secret'')))
   \<and> promise (run [Authorize False, Listen 0 8080,
        Request 0 ''/'' (query_of [(''code'', ''4/abc'')]),
        ExchangeReturns 0 (Inl ''invalid_grant'')] (boot ''linux'' ''id'' ''secret'')) 0
       = Some \<lparr>success = False, refreshToken = None, error = Some ''invalid_grant''\<rparr>
   \<and> closed (listener (run [Authorize False, Listen 0 8080,
        Request 0 ''/'' (query_of [(''code'', ''4/abc'')]),
        ExchangeReturns 0 (Inl ''invalid_grant'')] (boot ''linux'' ''id'' ''secret'')) 0)
   \<and> timer (run [Authorize False, Listen 0 8080,
        Request 0 ''/'' (query_of [(''code'', ''4/abc'')]),
        ExchangeReturns 0 (Inl ''invalid_grant'')] (boot ''linux'' ''id'' ''secret'')) 0
       \<noteq> Some Armed"
proof -
  define w0 where "w0 = run [] (step (Authorize False) (boot ''linux'' ''id'' ''secret''))"
  define w1 where "w1 = run [Listen 0 8080] (step (Authorize False) (boot ''linux'' ''id'' ''secret''))"
  define evs where "evs = [Listen 0 8080, Request 0 ''/'' (query_of [(''code'', ''4/abc'')]),
        ExchangeReturns 0 (Inl ''invalid_grant'')]"
  define w2 where "w2 = run evs (step (Authorize False) (boot ''linux'' ''id'' ''secret''))"
  have one: "one_attempt []" "one_attempt [Listen 0 8080]" "one_attempt evs"
    by (simp_all add: evs_def one_attempt_def)
  have h0: "\<not> crashed w0 \<and> promise w0 0 = None" and t0: "trace w0 = []"
    and tm0: "timer w0 0 = None"
    by (simp_all add: w0_def evals)
  have h1: "\<not> crashed w1 \<and> promise w1 0 = None" and l1: "listener w1 0 \<noteq> Some Binding"
    and c1: "closed_servers (trace w1) = []" "cleared_timers (trace w1) = []"
    and tm1: "timer w1 0 \<noteq> None"
    by (simp_all add: w1_def evals)
  have p2: "promise w2 0
           = Some \<lparr>success = False, refreshToken = None, error = Some ''invalid_grant''\<rparr>"
    by (simp add: w2_def evs_def evals query_of_def)
  from C3_cleanup_before_result [OF one(1) w0_def, of "''listen EACCES''"] h0
  have "ends_with w0 (step (ServerError 0 ''listen EACCES'') w0) []
          \<lparr>success = False, refreshToken = None, error = Some ''listen EACCES''\<rparr>"
    by simp
  hence r0: "promise (step (ServerError 0 ''listen EACCES'') w0) 0
          = Some \<lparr>success = False, refreshToken = None, error = Some ''listen EACCES''\<rparr>
       \<and> trace (step (ServerError 0 ''listen EACCES'') w0)
          = [Resolve 0 \<lparr>success = False, refreshToken = None, error = Some ''listen EACCES''\<rparr>,
             CloseServer 0]"
    using t0 tm0 by (simp add: ends_with_def)
  from C3_cleanup_before_result [OF one(2) w1_def] h1 l1
  have "ends_with w1 (step (TimerFires 0) w1)
          [Print ''Authorization timed out after 2 minutes'']
          \<lparr>success = False, refreshToken = None, error = Some ''Authorization timed out''\<rparr>"
    by simp
  hence r1: "promise (step (TimerFires 0) w1) 0
          = Some \<lparr>success = False, refreshToken = None, error = Some ''Authorization timed out''\<rparr>
       \<and> closed_servers (trace (step (TimerFires 0) w1)) = [0]
       \<and> cleared_timers (trace (step (TimerFires 0) w1)) = [0]
       \<and> closed (listener (step (TimerFires 0) w1) 0)"
    using c1 tm1 by (simp add: ends_with_def)
  from C3_cleanup_before_result [OF one(3) w2_def] p2
  have r2: "released_first (trace w2) \<and> closed (listener w2 0) \<and> timer w2 0 \<noteq> Some Armed"
    by simp
  from r0 r1 r2 p2 show ?thesis by (simp add: w0_def w1_def w2_def evs_def)
qed

subsection \<open>C4: the authorization URL\<close>

text \<open>
  What the template gives: the part before the query is the endpoint, and for a
  client identifier without \<open>&\<close> and \<open>#\<close> the query holds exactly the six parameters
  of the claim, in this order.
\<close>

lemma authUrl_query_params:
  "authUrl clientId redirectUri
     = endpoint @ ''?client_id='' @ clientId
       @ ''&redirect_uri='' @ encodeURIComponent redirectUri
       @ ''&response_type=code&scope='' @ join ''%20'' (map encodeURIComponent SCOPES)
       @ ''&access_type=offline&prompt=consent''
   \<and> url_base (authUrl clientId redirectUri) = endpoint
   \<and> (CHR ''&'' \<notin> set clientId \<and> CHR ''#'' \<notin> set clientId \<longrightarrow>
        query_params (authUrl clientId redirectUri)
          = [(''client_id'', clientId),
             (''redirect_uri'', encodeURIComponent redirectUri),
             (''response_type'', ''code''),
             (''scope'', join ''%20'' (map encodeURIComponent SCOPES)),
             (''access_type'', ''offline''),
             (''prompt'', ''consent'')])"
proof -
  define segs where "segs = [''client_id='' @ clientId,
                       ''redirect_uri='' @ encodeURIComponent redirectUri,
                       ''response_type=code'',
                       ''scope='' @ scopeStr,
                       ''access_type=offline'',
                       ''prompt=consent'']"
  have b: "url_base (authUrl clientId redirectUri) = endpoint"
    by (simp add: url_base_def authUrl_def endpoint_def)
  have s: "join ''%20'' (map encodeURIComponent SCOPES) = scopeStr"
    by (simp add: scopeStr_def)
  have kv: "map key_value segs
            = [(''client_id'', clientId),
                (''redirect_uri'', encodeURIComponent redirectUri),
                (''response_type'', ''code''),
                (''scope'', scopeStr),
                (''access_type'', ''offline''),
                (''prompt'', ''consent'')]"
    by (simp add: segs_def key_value_def)
  have ne: "join ''&'' segs \<noteq> []" by (simp add: segs_def)
  have q: "query_params (authUrl clientId redirectUri)
             = [(''client_id'', clientId),
                (''redirect_uri'', encodeURIComponent redirectUri),
                (''response_type'', ''code''),
                (''scope'', scopeStr),
                (''access_type'', ''offline''),
                (''prompt'', ''consent'')]"
    if amp: "CHR ''&'' \<notin> set clientId" and hash: "CHR ''#'' \<notin> set clientId"
  proof -
    have u: "url_query (authUrl clientId redirectUri) = join ''&'' segs"
      unfolding segs_def by (rule url_query_authUrl [OF hash])
    have n: "CHR ''&'' \<notin> set x" if "x \<in> set segs" for x
      using that amp scopeStr_no_delimiter by (auto simp add: segs_def)
    have sp: "split_on (CHR ''&'') (join ''&'' segs) = segs"
      by (rule split_on_join) (simp_all add: segs_def n [unfolded segs_def])
    show ?thesis using ne by (simp only: query_params_def u sp kv if_False)
  qed
  show ?thesis unfolding s using b q by (simp add: authUrl_def)
qed

text \<open>
  C4. The authorization URL is to hold exactly the six query parameters for every
  client identifier. The template encodes the redirect URI and the scopes but
  interpolates the client identifier as it is: for the identifier \<open>a&b=c\<close> the URL
  the code builds holds seven parameters, \<open>client_id=a\<close> and a parameter \<open>b=c\<close> that
  the claim does not allow.
\<close>

theorem C4_client_id_not_encoded:
  "query_params (authUrl ''a&b=c'' ''http://localhost:1'')
     = [(''client_id'', ''a''),
        (''b'', ''c''),
        (''redirect_uri'', ''http%3A%2F%2Flocalhost%3A1''),
        (''response_type'', ''code''),
        (''scope'', ''https%3A%2F%2Fmail.google.com%2F%20https%3A%2F%2Fwww.googleapis.com%2Fauth%2Fcalendar%20https%3A%2F%2Fwww.googleapis.com%2Fauth%2Fdrive''),
        (''access_type'', ''offline''),
        (''prompt'', ''consent'')]"
proof -
  define segs where "segs = [''client_id=a'', ''b=c'',
                       ''redirect_uri=http%3A%2F%2Flocalhost%3A1'',
                       ''response_type=code'',
                       ''scope='' @ scopeStr,
                       ''access_type=offline'',
                       ''prompt=consent'']"
  have "CHR ''#'' \<notin> set ''a&b=c''" by simp
  from url_query_authUrl [OF this, of "''http://localhost:1''"]
  have u: "url_query (authUrl ''a&b=c'' ''http://localhost:1'') = join ''&'' segs"
    by (simp add: segs_def enc_manual_redirect)
  have sp: "split_on (CHR ''&'') (join ''&'' segs) = segs"
    by (rule split_on_join) (auto simp add: segs_def scopeStr_value)
  have ne: "join ''&'' segs \<noteq> []" by (simp add: segs_def)
  have kv: "map key_value segs
            = [(''client_id'', ''a''),
                (''b'', ''c''),
                (''redirect_uri'', ''http%3A%2F%2Flocalhost%3A1''),
                (''response_type'', ''code''),
                (''scope'', scopeStr),
                (''access_type'', ''offline''),
                (''prompt'', ''consent'')]"
    by (simp add: segs_def key_value_def)
  show ?thesis
    using ne by (simp only: query_params_def u sp kv if_False scopeStr_value)
qed

subsection \<open>C5: manual mode and the deadline\<close>

text \<open>
  C5, as amended. Manual mode sets no timer. In a run of one manual attempt in which
  no line is pasted, whatever else happens, the attempt stays pending (it never
  becomes a timeout), the question stays open, no timer exists and the instance
  holds no timer or server handle, so there is nothing to clean up.
\<close>

theorem C5_manual_has_no_deadline:
  assumes "one_attempt evs" and "no_input evs"
    and "w = run evs (step (Authorize True) (boot plat cid cs))"
  shows "promise w 0 = None \<and> authorize w 0 = None \<and> prompt w 0
         \<and> set_timers (trace w) = [] \<and> (\<forall>n. timer w n = None)
         \<and> timeoutId (this w) = None \<and> server (this w) = None"
proof -
  have i: "manual_inv (step (Authorize True) (boot plat cid cs))" by (rule manual_inv_init)
  have p: "prompt (step (Authorize True) (boot plat cid cs)) 0"
    by (simp add: step_def boot_def startManualFlow_def Let_def)
  have inv: "manual_inv w" unfolding assms(3) using assms(1) by (rule manual_inv_reached)
  from manual_waits [OF i p assms(1,2)] inv show ?thesis
    by (simp add: assms(3) authorize_def manual_inv_def)
qed

theorem C5_witness:
  "authorize (run [Authorize True, TimerFires 0, Request 0 ''/'' (query_of [(''code'', ''4/abc'')])]
      (boot ''linux'' ''id'' ''secret'')) 0 = None
   \<and> set_timers (trace (run [Authorize True, TimerFires 0,
        Request 0 ''/'' (query_of [(''code'', ''4/abc'')])]
      (boot ''linux'' ''id'' ''secret''))) = []"
proof -
  define evs where "evs = [TimerFires 0, Request 0 ''/'' (query_of [(''code'', ''4/abc'')])]"
  have a: "one_attempt evs" and b: "no_input evs"
    by (simp_all add: one_attempt_def no_input_def evs_def)
  from C5_manual_has_no_deadline [OF a b refl, of "''linux''" "''id''" "''secret''"]
  show ?thesis by (simp add: evs_def)
qed

text \<open>
  The claim C5 as stated fails: after \<^verbatim>\<open>authorize(true)\<close> no timer has been set, and
  with no input the attempt is still pending when a deadline would have run out.
\<close>

theorem C5_counterexample:
  "set_timers (trace (run [Authorize True] (boot ''linux'' ''id'' ''secret''))) = []
   \<and> timer (run [Authorize True] (boot ''linux'' ''id'' ''secret'')) 0 = None
   \<and> timeoutId (this (run [Authorize True] (boot ''linux'' ''id'' ''secret''))) = None
   \<and> authorize (run [Authorize True, TimerFires 0] (boot ''linux'' ''id'' ''secret'')) 0 = None"
  by (simp add: evals authorize_def)

subsection \<open>C6: a second call of authorize\<close>

text \<open>
  C6, as amended. \<^verbatim>\<open>authorize\<close> checks nothing before it starts a flow. Called in any
  reachable state in which an earlier attempt \<open>m\<close> is still pending, it starts a
  further attempt: the earlier attempt stays pending, the new one is pending too
  (it is not rejected), and it has its own console question (manual mode) or its
  own server, whose handle replaces the one the instance held (automated mode).
\<close>

theorem C6_no_reentry_guard:
  assumes "w = run evs (boot plat cid cs)"
    and "\<not> crashed w" and "m < attempts w" and "promise w m = None"
    and "w' = step (Authorize manual) w"
  shows "attempts w' = Suc (attempts w)
         \<and> authorize w' m = None \<and> authorize w' (attempts w) = None
         \<and> (if manual then prompt w' (attempts w)
             else listener w' (attempts w) = Some Binding
                  \<and> server (this w') = Some (attempts w))"
proof -
  have "attempts_ok w" unfolding assms(1) by (rule attempts_ok_run [OF attempts_ok_boot])
  hence f: "promise w (attempts w) = None" by (simp add: attempts_ok_def)
  show ?thesis using assms(2,4) f
    by (cases manual)
       (simp_all add: assms(5) step_Authorize startAuthFlow_def startManualFlow_def
          Let_def authorize_def)
qed

theorem C6_witness:
  "authorize (run [Authorize False, Listen 0 8080, Authorize True]
        (boot ''linux'' ''id'' ''secret'')) 0 = None
   \<and> authorize (run [Authorize False, Listen 0 8080, Authorize True]
        (boot ''linux'' ''id'' ''secret'')) 1 = None
   \<and> prompt (run [Authorize False, Listen 0 8080, Authorize True]
        (boot ''linux'' ''id'' ''secret'')) 1"
proof -
  define w where "w = run [Authorize False, Listen 0 8080] (boot ''linux'' ''id'' ''secret'')"
  have h: "\<not> crashed w" "0 < attempts w" "promise w 0 = None" and a: "attempts w = 1"
    by (simp_all add: w_def evals)
  from C6_no_reentry_guard [OF w_def h refl, of True]
  have "authorize (step (Authorize True) w) 0 = None
        \<and> authorize (step (Authorize True) w) (attempts w) = None
        \<and> prompt (step (Authorize True) w) (attempts w)" by simp
  from this [unfolded a] show ?thesis by (simp add: w_def)
qed

text \<open>
  The claim C6 as stated fails: two calls of \<^verbatim>\<open>authorize()\<close> in a row leave two
  pending attempts, each with a server that is binding; the second call is not
  rejected, and the instance now holds the second server only.
\<close>

theorem C6_counterexample:
  "attempts (run [Authorize False, Authorize False] (boot ''linux'' ''id'' ''secret'')) = 2
   \<and> authorize (run [Authorize False, Authorize False] (boot ''linux'' ''id'' ''secret'')) 0 = None
   \<and> authorize (run [Authorize False, Authorize False] (boot ''linux'' ''id'' ''secret'')) 1 = None
   \<and> listener (run [Authorize False, Authorize False] (boot ''linux'' ''id'' ''secret'')) 0
       = Some Binding
   \<and> listener (run [Authorize False, Authorize False] (boot ''linux'' ''id'' ''secret'')) 1
       = Some Binding
   \<and> server (this (run [Authorize False, Authorize False] (boot ''linux'' ''id'' ''secret'')))
       = Some 1"
  by (simp add: evals authorize_def)

subsection \<open>C7: a pasted URL without a code\<close>

text \<open>
  C7. In a run of one manual attempt, while the console question is open, a pasted
  line whose parsed query has no \<open>code\<close> (or an empty one) settles the attempt with
  the error ``No authorization code found in URL'', which \<^verbatim>\<open>authorize\<close> throws, and
  in the whole run, whatever comes later, \<^verbatim>\<open>getToken\<close> is never called.
\<close>

theorem C7_manual_missing_code:
  assumes "one_attempt evs"
    and "w = run evs (step (Authorize True) (boot plat cid cs))"
    and "\<not> crashed w" and "prompt w 0"
    and "\<not> truthy (q ''code'')"
    and "w' = step (ManualInput 0 (Inr q)) w"
    and "one_attempt evs'"
  shows "promise w' 0 = Some \<lparr>success = False, refreshToken = None,
                                error = Some ''No authorization code found in URL''\<rparr>
         \<and> authorize (run evs' w') 0 = Some (Inl ''No authorization code found in URL'')
         \<and> exchanged (trace (run evs' w')) = []"
proof -
  have inv: "manual_inv w" unfolding assms(2) using assms(1) by (rule manual_inv_reached)
  with assms(4) have l: "promise w 0 = None" "exchanged (trace w) = []"
    by (simp_all add: manual_inv_def)
  have u: "or_undefined (q ''code'') = None"
    using assms(5) by (cases "q ''code''") auto
  have w': "w' = resolve 0 \<lparr>success = False, refreshToken = None,
                             error = Some ''No authorization code found in URL''\<rparr>
                   (emit (CloseReadline 0) (w\<lparr>prompt := (prompt w)(0 := False)\<rparr>))"
    using assms(3,4) u by (simp add: assms(6) step_ManualInput on_input_def)
  have p: "promise w' 0 = Some \<lparr>success = False, refreshToken = None,
                                error = Some ''No authorization code found in URL''\<rparr>"
    using l by (simp add: w')
  have inv': "manual_inv w'" unfolding assms(6) using inv by (rule manual_inv_step) simp
  have q: "\<not> prompt w' 0" "exchanged (trace w') = []" using l by (simp_all add: w')
  from manual_quiet [OF inv' q assms(7)] p q
  have "promise (run evs' w') 0 = Some \<lparr>success = False, refreshToken = None,
                                error = Some ''No authorization code found in URL''\<rparr>"
    and "exchanged (trace (run evs' w')) = []" by simp_all
  thus ?thesis using p by (simp add: authorize_def authorize_result_def)
qed

theorem C7_witness:
  "authorize (run [Authorize True, TimerFires 0,
        ManualInput 0 (Inr (query_of [(''state'', ''x'')])),
        ManualInput 0 (Inr (query_of [(''code'', ''4/abc'')]))]
      (boot ''linux'' ''id'' ''secret'')) 0
     = Some (Inl ''No authorization code found in URL'')
   \<and> exchanged (trace (run [Authorize True, TimerFires 0,
        ManualInput 0 (Inr (query_of [(''state'', ''x'')])),
        ManualInput 0 (Inr (query_of [(''code'', ''4/abc'')]))]
      (boot ''linux'' ''id'' ''secret''))) = []"
proof -
  define w where "w = run [TimerFires 0] (step (Authorize True) (boot ''linux'' ''id'' ''secret''))"
  define w' where "w' = step (ManualInput 0 (Inr (query_of [(''state'', ''x'')]))) w"
  define evs' where "evs' = [ManualInput 0 (Inr (query_of [(''code'', ''4/abc'')]))]"
  have a: "one_attempt [TimerFires 0]" and b: "one_attempt evs'"
    by (simp_all add: one_attempt_def evs'_def)
  have c: "\<not> crashed w" and l: "prompt w 0"
    by (simp_all add: w_def evals)
  have e: "\<not> truthy (query_of [(''state'', ''x'')] ''code'')"
    by (simp add: query_of_def)
  from C7_manual_missing_code [OF a w_def c l e w'_def b]
  show ?thesis by (simp add: w'_def w_def evs'_def)
qed

subsection \<open>C8: an error callback\<close>



subsection \<open>C9: the browser launcher fails\<close>

text \<open>
  C9. The URL is printed before the browser is spawned. On Linux without
  \<^verbatim>\<open>xdg-open\<close> the spawned child emits \<^verbatim>\<open>error\<close>, for which \<^verbatim>\<open>openBrowser\<close> registered
  no listener: the process ends and \<^verbatim>\<open>authorize\<close> never returns, where the same
  callback and token answer give the refresh token when the launcher works.
\<close>

theorem C9_launcher_failure_ends_the_process:
  "Print (authUrl ''id'' ''http://localhost:8080'')
      \<in> set (trace (run [Authorize False, Listen 0 8080, ChildError 0 ''spawn xdg-open ENOENT'']
                  (boot ''linux'' ''id'' ''secret'')))
   \<and> crashed (run [Authorize False, Listen 0 8080, ChildError 0 ''spawn xdg-open ENOENT'']
                  (boot ''linux'' ''id'' ''secret''))
   \<and> authorize (run [Authorize False, Listen 0 8080, ChildError 0 ''spawn xdg-open ENOENT'',
                     Request 0 ''/'' (query_of [(''code'', ''4/abc'')]),
                     ExchangeReturns 0 (Inr \<lparr>refresh_token = Some ''1//r'', access_token = None\<rparr>)]
                  (boot ''linux'' ''id'' ''secret'')) 0 = None
   \<and> authorize (run [Authorize False, Listen 0 8080,
                     Request 0 ''/'' (query_of [(''code'', ''4/abc'')]),
                     ExchangeReturns 0 (Inr \<lparr>refresh_token = Some ''1//r'', access_token = None\<rparr>)]
                  (boot ''linux'' ''id'' ''secret'')) 0 = Some (Inr ''1//r'')"
proof -
  define w where "w = step (Authorize False) (boot ''linux'' ''id'' ''secret'')"
  have h: "\<not> crashed w" "listener w 0 = Some Binding" "server (this w) = Some 0"
    "client_id (oauth2Client (this w)) = ''id''"
    by (simp_all add: w_def evals)
  have c: "children (step (Listen 0 8080) w) = 1" "\<not> crashed (step (Listen 0 8080) w)"
    by (simp_all add: w_def evals)
  have "trace (step (ChildError 0 ''spawn xdg-open ENOENT'') (step (Listen 0 8080) w))
        = trace (step (Listen 0 8080) w)"
    by (simp add: step_ChildError)
  hence "Print (authUrl ''id'' ''http://localhost:8080'')
      \<in> set (trace (run [Authorize False, Listen 0 8080, ChildError 0 ''spawn xdg-open ENOENT'']
                  (boot ''linux'' ''id'' ''secret'')))"
    using listen_trace [OF h(1-3), of 8080] h(4)
    by (simp add: w_def [symmetric] show_nat_8080)
  moreover
  have "crashed (run [Authorize False, Listen 0 8080, ChildError 0 ''spawn xdg-open ENOENT'']
                  (boot ''linux'' ''id'' ''secret''))"
    using c by (simp add: w_def [symmetric] step_ChildError)
  moreover
  have "authorize (run [Authorize False, Listen 0 8080, ChildError 0 ''spawn xdg-open ENOENT'',
                     Request 0 ''/'' (query_of [(''code'', ''4/abc'')]),
                     ExchangeReturns 0 (Inr \<lparr>refresh_token = Some ''1//r'', access_token = None\<rparr>)]
                  (boot ''linux'' ''id'' ''secret'')) 0 = None"
    by (simp add: evals authorize_def)
  moreover
  have "authorize (run [Authorize False, Listen 0 8080,
                     Request 0 ''/'' (query_of [(''code'', ''4/abc'')]),
                     ExchangeReturns 0 (Inr \<lparr>refresh_token = Some ''1//r'', access_token = None\<rparr>)]
                  (boot ''linux'' ''id'' ''secret'')) 0 = Some (Inr ''1//r'')"
    by (simp add: evals authorize_def authorize_result_def query_of_def)
  ultimately show ?thesis by simp
qed

subsection \<open>C10: no empty refresh token\<close>

text \<open>
  C10, as amended. \<^verbatim>\<open>authorize\<close> never returns the empty string. In either mode, when the
  exchange awaited by a pending attempt answers with tokens whose
  \<^verbatim>\<open>refresh_token\<close> is absent or empty, \<^verbatim>\<open>authorize\<close> throws
  ``No refresh token received''.
\<close>

theorem C10_no_empty_refresh_token:
  assumes "\<not> truthy (refresh_token tokens)"
    and "\<not> crashed w" and "promise w n = None"
    and "awaiting w k = Some (Callback n) \<or> awaiting w k = Some (Manual n)"
  shows "authorize (step (ExchangeReturns k (Inr tokens)) w) n
           = Some (Inl ''No refresh token received'')
         \<and> authorize w' m \<noteq> Some (Inr [])"
proof -
  have u: "or_undefined (refresh_token tokens) = None"
    using assms(1) by (cases "refresh_token tokens") auto
  have "promise (step (ExchangeReturns k (Inr tokens)) w) n
        = Some \<lparr>success = True, refreshToken = None, error = None\<rparr>"
    using assms(2-4) u
    by (auto simp add: step_ExchangeReturns handleCallback_resume_def on_input_resume_def)
  hence "authorize (step (ExchangeReturns k (Inr tokens)) w) n
           = Some (Inl ''No refresh token received'')"
    by (simp add: authorize_def authorize_result_def)
  moreover have "authorize w' m \<noteq> Some (Inr [])"
    by (cases "promise w' m") (simp_all add: authorize_def authorize_result_nonempty)
  ultimately show ?thesis by simp
qed

theorem C10_witness:
  "authorize
     (run [Authorize True, ManualInput 0 (Inr (query_of [(''code'', ''4/abc'')])),
           ExchangeReturns 0 (Inr \<lparr>refresh_token = None, access_token = Some ''ya29''\<rparr>)]
        (boot ''linux'' ''id'' ''secret'')) 0
   = Some (Inl ''No refresh token received'')"
proof -
  define w where "w = run [Authorize True, ManualInput 0 (Inr (query_of [(''code'', ''4/abc'')]))]
                        (boot ''linux'' ''id'' ''secret'')"
  have h1: "\<not> crashed w" and h2: "promise w 0 = None"
    and h3: "awaiting w 0 = Some (Callback 0) \<or> awaiting w 0 = Some (Manual 0)"
    by (simp_all add: w_def evals query_of_def)
  have "authorize (step (ExchangeReturns 0
          (Inr \<lparr>refresh_token = None, access_token = Some ''ya29''\<rparr>)) w) 0
        = Some (Inl ''No refresh token received'')"
    using C10_no_empty_refresh_token [OF _ h1 h2 h3] by simp
  thus ?thesis by (simp add: w_def)
qed

text \<open>
  The claim C10 as stated fails: the exchange answers without a refresh token, but
  the deadline ran out while it was in flight, and \<^verbatim>\<open>authorize\<close> throws
  ``Authorization timed out'', not ``No refresh token received''.
\<close>

theorem C10_counterexample:
  "authorize (run [Authorize False, Listen 0 8080,
        Request 0 ''/'' (query_of [(''code'', ''4/abc'')]),
        TimerFires 0,
        ExchangeReturns 0 (Inr \<lparr>refresh_token = None, access_token = Some ''ya29''\<rparr>)]
      (boot ''linux'' ''id'' ''secret'')) 0
   = Some (Inl ''Authorization timed out'')"
  by (simp add: evals authorize_def authorize_result_def query_of_def)

end
